theory Spec2Isabelle
  imports Main "HOL-Library.Word"
begin

section \<open>The uORB manager (uORB/manager/uORBManager.cxx)\<close>

text \<open>
  The manager sits on top of a character-device layer: every topic node is a device
  below a path, reached through \<open>open\<close>, \<open>close\<close>, \<open>read\<close>, \<open>stat\<close> and \<open>ioctl\<close>,
  and through the static functions of \<open>uORB::DeviceNode\<close>. That layer is not part of
  the manager's file. The manager's functions are therefore embedded over a record of
  those operations (\<open>sysops\<close>), each an explicit state transformer on a \<open>world\<close>
  (the C \<open>errno\<close> and the state of the device layer).

  Conventions of the embedding:
  \<^item> a C \<open>int\<close> that is only compared and passed on (a file descriptor, a return code,
    an errno value, an instance number) is an \<open>int\<close>; \<open>unsigned\<close> values that are
    multiplied or divided are \<open>32 word\<close>;
  \<^item> a pointer that may be null is an \<open>option\<close>; an in/out pointer argument is passed
    as the value it points to and returned as the value it points to afterwards;
  \<^item> a C string is the \<open>string\<close> of its characters before the terminating NUL, so
    \<open>strcmp(a, b) == 0\<close> is \<open>a = b\<close>;
  \<^item> \<open>syslog\<close> calls write a log line only and are left out, except that evaluating
    their arguments can dereference a null pointer, which is kept as a \<open>fault\<close>;
  \<^item> memory allocation (\<open>new\<close>, \<open>strdup\<close>) is taken to succeed;
  \<^item> the two preprocessor switches \<open>ORB_USE_PUBLISHER_RULES\<close> and
    \<open>ORB_COMMUNICATOR\<close> are Boolean fields of the manager.
\<close>

subsection \<open>Data\<close>

type_synonym payload = "8 word list"

record orb_metadata =
  o_name :: string
  o_size :: "16 word"

text \<open>
  \<open>orb_advert_t\<close> is an untyped pointer. The manager only ever produces three kinds:
  the null pointer, the address of the manager singleton (\<open>_Instance\<close>, the object the
  member functions run on), and the address of a \<open>DeviceNode\<close>, which is identified
  here by the node's device path. While a member function runs, \<open>_Instance\<close> is the
  object that \<open>initialize\<close> created: it is not null, and it is no \<open>DeviceNode\<close>.
\<close>

datatype orb_advert_t = nullptr | ManagerInstance | DeviceNodePtr string

datatype open_flags = O_ZERO | O_RDONLY | O_WRONLY

datatype ioctl_cmd =
    ORBIOCADVERTISE
  | ORBIOCUPDATED
  | ORBIOCSETINTERVAL
  | ORBIOCGADVERTISER
  | ORBIOCSETQUEUESIZE
  | ORBIOCGETINTERVAL
  | ORBIOCISPUBLISHED

text \<open>
  The third argument of \<open>ioctl\<close> is an \<open>unsigned long\<close> that is either a number or
  the address of a variable the driver may read and write. The pointer forms carry the
  variable's content; \<open>ioctl\<close> returns the content after the call.
\<close>

datatype ioctl_arg =
    ArgValue nat
  | ArgBoolPtr bool
  | ArgUnsignedPtr "32 word"
  | ArgULongPtr nat
  | ArgAdvertPtr orb_advert_t
  | ArgAdvertData "orb_metadata option" "int option" int

record 'd world =
  errno :: int
  dev :: 'd

record 'd sysops =
  sys_stat :: "string \<Rightarrow> 'd world \<Rightarrow> int \<times> 'd world"
  sys_open :: "string \<Rightarrow> open_flags \<Rightarrow> 'd world \<Rightarrow> int \<times> 'd world"
  sys_close :: "int \<Rightarrow> 'd world \<Rightarrow> int \<times> 'd world"
  sys_read :: "int \<Rightarrow> payload \<Rightarrow> nat \<Rightarrow> 'd world \<Rightarrow> (int \<times> payload) \<times> 'd world"
  sys_ioctl :: "int \<Rightarrow> ioctl_cmd \<Rightarrow> ioctl_arg \<Rightarrow> 'd world \<Rightarrow> (int \<times> ioctl_arg) \<times> 'd world"
  node_mkpath :: "orb_metadata option \<Rightarrow> int option \<Rightarrow> int \<times> string"
  DeviceNode_publish ::
    "orb_metadata option \<Rightarrow> orb_advert_t \<Rightarrow> payload option \<Rightarrow> 'd world \<Rightarrow> int \<times> 'd world"
  DeviceNode_unadvertise :: "orb_advert_t \<Rightarrow> 'd world \<Rightarrow> int \<times> 'd world"
  DeviceNode_topic_advertised :: "orb_metadata option \<Rightarrow> int \<Rightarrow> 'd world \<Rightarrow> 'd world"
  px4_get_taskname :: "'d world \<Rightarrow> string"
  TOPIC_MASTER_DEVICE_PATH :: string
  ORB_PRIO_DEFAULT :: int

record PublisherRule =
  topics :: "string list option"
  rule_module_name :: "string option"
  ignore_other_topics :: bool

record Manager =
  ORB_USE_PUBLISHER_RULES :: bool
  ORB_COMMUNICATOR :: bool
  has_publisher_rules :: bool
  publisher_rule :: PublisherRule
  remote_topics :: "string set"

datatype fault = NullDereference | OutOfBounds

abbreviation OK :: int where "OK \<equiv> 0"

definition ENOENT :: int where "ENOENT = 2"
definition EIO :: int where "EIO = 5"
definition EBADF :: int where "EBADF = 9"
definition ENOMEM :: int where "ENOMEM = 12"
definition EEXIST :: int where "EEXIST = 17"
definition EINVAL :: int where "EINVAL = 22"
definition ENOTTY :: int where "ENOTTY = 25"
definition ENAMETOOLONG :: int where "ENAMETOOLONG = 36"

lemmas errno_defs =
  ENOENT_def EIO_def EBADF_def ENOMEM_def EEXIST_def EINVAL_def ENOTTY_def ENAMETOOLONG_def

text \<open>What a pointer argument of \<open>ioctl\<close> holds after the call, read at its C type.\<close>

fun bool_pointee :: "bool \<Rightarrow> ioctl_arg \<Rightarrow> bool" where
  "bool_pointee old (ArgBoolPtr b) = b"
| "bool_pointee old _ = old"

fun unsigned_pointee :: "32 word \<Rightarrow> ioctl_arg \<Rightarrow> 32 word" where
  "unsigned_pointee old (ArgUnsignedPtr v) = v"
| "unsigned_pointee old _ = old"


fun advert_pointee :: "orb_advert_t \<Rightarrow> ioctl_arg \<Rightarrow> orb_advert_t" where
  "advert_pointee old (ArgAdvertPtr h) = h"
| "advert_pointee old _ = old"

fun instance_pointee :: "int option \<Rightarrow> ioctl_arg \<Rightarrow> int option" where
  "instance_pointee (Some old) (ArgAdvertData m (Some i) p) = Some i"
| "instance_pointee old _ = old"

subsection \<open>Publisher rules: the check at advertise time\<close>

text \<open>\<open>findTopic\<close>: the loop over the null-terminated array \<open>rule.topics\<close>.\<close>

fun findTopic_loop :: "string list \<Rightarrow> string \<Rightarrow> bool" where
  "findTopic_loop [] topic_name = False"
| "findTopic_loop (t # ts) topic_name =
     (if t = topic_name then True else findTopic_loop ts topic_name)"

definition findTopic :: "PublisherRule \<Rightarrow> string \<Rightarrow> fault + bool" where
  "findTopic rule topic_name =
     (case topics rule of
        None \<Rightarrow> Inl NullDereference
      | Some ts \<Rightarrow> Inr (findTopic_loop ts topic_name))"

text \<open>
  The block under \<open>ORB_USE_PUBLISHER_RULES\<close> at the head of \<open>orb_advertise_multi\<close>.
  The result \<open>Inr True\<close> stands for its two \<open>return (orb_advert_t)_Instance\<close>
  statements (the advertise is refused), \<open>Inr False\<close> for falling through to the
  code that opens the node.
\<close>

definition publisher_rule_check ::
  "Manager \<Rightarrow> string \<Rightarrow> orb_metadata option \<Rightarrow> fault + bool" where
  "publisher_rule_check mgr prog_name meta =
     (if ORB_USE_PUBLISHER_RULES mgr \<and> has_publisher_rules mgr then
        (case rule_module_name (publisher_rule mgr) of
           None \<Rightarrow> Inl NullDereference
         | Some mn \<Rightarrow>
             if mn = prog_name then
               (if ignore_other_topics (publisher_rule mgr) then
                  (case meta of
                     None \<Rightarrow> Inl NullDereference
                   | Some m \<Rightarrow>
                       (case findTopic (publisher_rule mgr) (o_name m) of
                          Inl f \<Rightarrow> Inl f
                        | Inr found \<Rightarrow> Inr (\<not> found)))
                else Inr False)
             else
               (case meta of
                  None \<Rightarrow> Inl NullDereference
                | Some m \<Rightarrow>
                    (case findTopic (publisher_rule mgr) (o_name m) of
                       Inl f \<Rightarrow> Inl f
                     | Inr found \<Rightarrow> Inr found)))
      else Inr False)"

subsection \<open>Opening a node\<close>

definition node_advertise ::
  "'d sysops \<Rightarrow> orb_metadata option \<Rightarrow> int option \<Rightarrow> int \<Rightarrow> 'd world
     \<Rightarrow> (int \<times> int option) \<times> 'd world" where
  "node_advertise ops meta instance priority w =
     (let (fd, w1) = sys_open ops (TOPIC_MASTER_DEVICE_PATH ops) O_ZERO w in
      if fd < 0 then ((-1, instance), w1)
      else
        (let ((ret, adv), w2) =
               sys_ioctl ops fd ORBIOCADVERTISE (ArgAdvertData meta instance priority) w1;
             ret' = (if OK \<noteq> ret \<and> EEXIST = errno w2 then OK else ret);
             (closed, w3) = sys_close ops fd w2
         in ((ret', instance_pointee instance adv), w3)))"

text \<open>The tail of \<open>node_open\<close>: \<open>if (fd < 0) { errno = EIO; return -1; } return fd;\<close>\<close>

definition node_open_result ::
  "int \<Rightarrow> int option \<Rightarrow> 'd world \<Rightarrow> (int \<times> int option) \<times> 'd world" where
  "node_open_result fd instance w =
     (if fd < 0 then ((-1, instance), w\<lparr>errno := EIO\<rparr>) else ((fd, instance), w))"

text \<open>The middle of \<open>node_open\<close>: \<open>if (fd < 0) { ... node_advertise ... }\<close>.\<close>

definition node_open_advertise ::
  "'d sysops \<Rightarrow> orb_metadata option \<Rightarrow> bool \<Rightarrow> int \<Rightarrow> int \<Rightarrow> int option \<Rightarrow> 'd world
     \<Rightarrow> (int \<times> int option) \<times> 'd world" where
  "node_open_advertise ops meta advertiser priority fd instance w =
     (if fd < 0 then
        (let ((ret, instance'), w1) = node_advertise ops meta instance priority w in
         if ret = OK then
           (let (ret', path) = node_mkpath ops meta instance' in
            if ret' \<noteq> OK then ((-1, instance'), w1\<lparr>errno := - ret'\<rparr>)
            else
              (let (fd', w2) =
                     sys_open ops path (if advertiser then O_WRONLY else O_RDONLY) w1
               in node_open_result fd' instance' w2))
         else node_open_result fd instance' w1)
      else node_open_result fd instance w)"

definition node_open ::
  "'d sysops \<Rightarrow> orb_metadata option \<Rightarrow> payload option \<Rightarrow> bool \<Rightarrow> int option \<Rightarrow> int
     \<Rightarrow> 'd world \<Rightarrow> (int \<times> int option) \<times> 'd world" where
  "node_open ops meta data advertiser instance priority w =
     (if meta = None then ((-1, instance), w\<lparr>errno := ENOENT\<rparr>)
      else if advertiser \<and> data = None then ((-1, instance), w\<lparr>errno := EINVAL\<rparr>)
      else if instance = None \<or> \<not> advertiser then
        (let (ret, path) = node_mkpath ops meta instance in
         if ret \<noteq> OK then ((-1, instance), w\<lparr>errno := - ret\<rparr>)
         else
           (let (fd, w1) = sys_open ops path (if advertiser then O_WRONLY else O_RDONLY) w
            in node_open_advertise ops meta advertiser priority fd instance w1))
      else node_open_advertise ops meta advertiser priority (-1) (Some 0) w)"

subsection \<open>The public operations\<close>

definition orb_publish ::
  "'d sysops \<Rightarrow> Manager \<Rightarrow> orb_metadata option \<Rightarrow> orb_advert_t \<Rightarrow> payload option
     \<Rightarrow> 'd world \<Rightarrow> int \<times> 'd world" where
  "orb_publish ops mgr meta handle data w =
     (if ORB_USE_PUBLISHER_RULES mgr \<and> handle = ManagerInstance then (OK, w)
      else DeviceNode_publish ops meta handle data w)"

definition orb_unadvertise ::
  "'d sysops \<Rightarrow> Manager \<Rightarrow> orb_advert_t \<Rightarrow> 'd world \<Rightarrow> int \<times> 'd world" where
  "orb_unadvertise ops mgr handle w =
     (if ORB_USE_PUBLISHER_RULES mgr \<and> handle = ManagerInstance then (OK, w)
      else DeviceNode_unadvertise ops handle w)"

text \<open>
  \<open>orb_advertise_multi\<close> after the rule check. The local \<open>advertiser\<close> is not
  initialised in the source; it starts here as the null pointer and is only used after
  \<open>ORBIOCGADVERTISER\<close> did not return -1. The result of \<open>ORBIOCSETQUEUESIZE\<close> is
  only logged and then overwritten.
\<close>

definition advertise_node ::
  "'d sysops \<Rightarrow> Manager \<Rightarrow> orb_metadata option \<Rightarrow> payload option \<Rightarrow> int option \<Rightarrow> int
     \<Rightarrow> 32 word \<Rightarrow> 'd world \<Rightarrow> fault + ((orb_advert_t \<times> int option) \<times> 'd world)" where
  "advertise_node ops mgr meta data instance priority queue_size w =
     (let ((fd, instance'), w1) = node_open ops meta data True instance priority w in
      if fd = -1 then
        (if meta = None then Inl NullDereference else Inr ((nullptr, instance'), w1))
      else
        (let ((result, qarg), w2) =
               sys_ioctl ops fd ORBIOCSETQUEUESIZE (ArgValue (unat queue_size)) w1;
             ((result', aarg), w3) =
               sys_ioctl ops fd ORBIOCGADVERTISER (ArgAdvertPtr nullptr) w2;
             advertiser = advert_pointee nullptr aarg;
             (closed, w4) = sys_close ops fd w3
         in if result' = -1 then Inr ((nullptr, instance'), w4)
            else
              (let w5 = (if ORB_COMMUNICATOR mgr
                         then DeviceNode_topic_advertised ops meta priority w4 else w4);
                   (result'', w6) = orb_publish ops mgr meta advertiser data w5
               in if result'' = -1 then Inr ((nullptr, instance'), w6)
                  else Inr ((advertiser, instance'), w6))))"

definition orb_advertise_multi ::
  "'d sysops \<Rightarrow> Manager \<Rightarrow> orb_metadata option \<Rightarrow> payload option \<Rightarrow> int option \<Rightarrow> int
     \<Rightarrow> 32 word \<Rightarrow> 'd world \<Rightarrow> fault + ((orb_advert_t \<times> int option) \<times> 'd world)" where
  "orb_advertise_multi ops mgr meta data instance priority queue_size w =
     (case publisher_rule_check mgr (px4_get_taskname ops w) meta of
        Inl f \<Rightarrow> Inl f
      | Inr True \<Rightarrow> Inr ((ManagerInstance, instance), w)
      | Inr False \<Rightarrow> advertise_node ops mgr meta data instance priority queue_size w)"

definition orb_subscribe ::
  "'d sysops \<Rightarrow> orb_metadata option \<Rightarrow> 'd world \<Rightarrow> int \<times> 'd world" where
  "orb_subscribe ops meta w =
     (let ((fd, instance), w') = node_open ops meta None False None (ORB_PRIO_DEFAULT ops) w
      in (fd, w'))"

definition orb_subscribe_multi ::
  "'d sysops \<Rightarrow> orb_metadata option \<Rightarrow> 32 word \<Rightarrow> 'd world \<Rightarrow> int \<times> 'd world" where
  "orb_subscribe_multi ops meta instance w =
     (let ((fd, inst), w') =
            node_open ops meta None False (Some (sint instance)) (ORB_PRIO_DEFAULT ops) w
      in (fd, w'))"

definition orb_unsubscribe :: "'d sysops \<Rightarrow> int \<Rightarrow> 'd world \<Rightarrow> int \<times> 'd world" where
  "orb_unsubscribe ops fd w = sys_close ops fd w"

text \<open>
  \<open>orb_copy\<close>: \<open>buffer\<close> is the content of the caller's buffer, returned as it is
  after the call. The descriptor is read without a check (\<open>meta->o_size\<close>), so it is
  taken here as present.
\<close>

definition orb_copy ::
  "'d sysops \<Rightarrow> orb_metadata \<Rightarrow> int \<Rightarrow> payload \<Rightarrow> 'd world \<Rightarrow> (int \<times> payload) \<times> 'd world" where
  "orb_copy ops meta handle buffer w =
     (let ((ret, buffer'), w1) = sys_read ops handle buffer (unat (o_size meta)) w in
      if ret < 0 then ((-1, buffer'), w1)
      else if ret \<noteq> uint (o_size meta) then ((-1, buffer'), w1\<lparr>errno := EIO\<rparr>)
      else ((OK, buffer'), w1))"

text \<open>
  \<open>orb_check\<close>: \<open>updated\<close> is the content of the caller's flag before the call; the
  result carries its content after the call.
\<close>

definition orb_check ::
  "'d sysops \<Rightarrow> int \<Rightarrow> bool \<Rightarrow> 'd world \<Rightarrow> (int \<times> bool) \<times> 'd world" where
  "orb_check ops handle updated w =
     (let updated0 = False;
          ((ret, arg), w1) = sys_ioctl ops handle ORBIOCUPDATED (ArgBoolPtr updated0) w
      in ((ret, bool_pointee updated0 arg), w1))"

definition orb_set_interval ::
  "'d sysops \<Rightarrow> int \<Rightarrow> 32 word \<Rightarrow> 'd world \<Rightarrow> int \<times> 'd world" where
  "orb_set_interval ops handle interval w =
     (let ((ret, arg), w1) =
            sys_ioctl ops handle ORBIOCSETINTERVAL (ArgValue (unat (interval * 1000))) w
      in (ret, w1))"

definition orb_get_interval ::
  "'d sysops \<Rightarrow> int \<Rightarrow> 32 word \<Rightarrow> 'd world \<Rightarrow> (int \<times> 32 word) \<times> 'd world" where
  "orb_get_interval ops handle interval w =
     (let ((ret, arg), w1) =
            sys_ioctl ops handle ORBIOCGETINTERVAL (ArgUnsignedPtr interval) w;
          interval' = unsigned_pointee interval arg div 1000
      in ((ret, interval'), w1))"




subsection \<open>Publisher rules: reading the rules file\<close>

definition NUL :: char where "NUL = CHR 0x00"
definition newline :: char where "newline = CHR 0x0A"
definition tab :: char where "tab = CHR 0x09"

text \<open>
  A \<open>char *\<close> that walks through a buffer is the list of the characters from
  the pointer to the end of the string; the empty list is the pointer at the terminating
  NUL. \<open>++p\<close> is the tail, \<open>*p\<close> the head.
\<close>

definition startsWith :: "string \<Rightarrow> string \<Rightarrow> bool" where
  "startsWith pre str =
     (let lenpre = length pre; lenstr = length str
      in if lenstr < lenpre then False else take lenpre pre = take lenpre str)"

fun strTrim :: "string \<Rightarrow> string" where
  "strTrim [] = []"
| "strTrim (c # cs) = (if c = CHR '' '' \<or> c = tab then strTrim cs else c # cs)"

text \<open>The C string at a pointer into a buffer that has NUL characters inside.\<close>

definition cstr :: "string \<Rightarrow> string" where
  "cstr p = takeWhile (\<lambda>c. c \<noteq> NUL) p"

text \<open>
  \<open>fgets(line, n, fp)\<close> on the rest of the file: at most \<open>n - 1\<close> characters, up to
  and including the first newline; \<open>None\<close> (a null result) at the end of the file.
\<close>

fun take_line :: "nat \<Rightarrow> string \<Rightarrow> string \<times> string" where
  "take_line 0 cs = ([], cs)"
| "take_line (Suc k) [] = ([], [])"
| "take_line (Suc k) (c # cs) =
     (if c = newline then ([c], cs)
      else (let (l, rest) = take_line k cs in (c # l, rest)))"

definition fgets :: "nat \<Rightarrow> string \<Rightarrow> (string \<times> string) option" where
  "fgets n content = (if content = [] then None else Some (take_line (n - 1) content))"

definition line_len :: nat where "line_len = 1024"

text \<open>
  The \<open>for\<close> loop over the copy of the topics list: a comma or newline that ends a
  non-empty stretch is overwritten with NUL and counted.
\<close>

fun mark_topics :: "string \<Rightarrow> nat \<Rightarrow> nat \<Rightarrow> string \<times> nat" where
  "mark_topics [] topic_len num_topics = ([], num_topics)"
| "mark_topics (c # cs) topic_len num_topics =
     (if c = CHR '','' \<or> c = newline then
        (if topic_len > 0 then
           (let (buf, n) = mark_topics cs 0 (num_topics + 1) in (NUL # buf, n))
         else
           (let (buf, n) = mark_topics cs 0 num_topics in (c # buf, n)))
      else
        (let (buf, n) = mark_topics cs (topic_len + 1) num_topics in (c # buf, n)))"

lemma length_strTrim_le: "length (strTrim cs) \<le> length cs"
  by (induction cs) auto

text \<open>
  The \<open>while (topic < num_topics)\<close> loop that collects the start of every further
  topic. Stepping over the buffer's own terminating NUL leaves the buffer.
\<close>

function collect_topics :: "string \<Rightarrow> nat \<Rightarrow> nat \<Rightarrow> string list \<Rightarrow> fault + string list" where
  "collect_topics p topic num_topics acc =
     (if topic < num_topics then
        (case p of
           [] \<Rightarrow> Inl OutOfBounds
         | c # cs \<Rightarrow>
             if c = NUL then
               (let p' = strTrim cs
                in collect_topics p' (topic + 1) num_topics (acc @ [cstr p']))
             else collect_topics cs topic num_topics acc)
      else Inr acc)"
  by pat_completeness auto
termination
  by (relation "measure (\<lambda>(p, topic, num_topics, acc). length p)")
     (auto simp: length_strTrim_le less_Suc_eq_le)

declare collect_topics.simps [simp del]

definition read_topics :: "string \<Rightarrow> PublisherRule \<Rightarrow> fault + PublisherRule" where
  "read_topics start rule =
     (let (buf, num_topics) = mark_topics start 0 0 in
      if num_topics > 0 then
        (let p = strTrim buf in
         case collect_topics p 1 num_topics [cstr p] of
           Inl f \<Rightarrow> Inl f
         | Inr ts \<Rightarrow> Inr (rule\<lparr>topics := Some ts\<rparr>))
      else Inr rule)"

definition read_module_name :: "string \<Rightarrow> PublisherRule \<Rightarrow> PublisherRule" where
  "read_module_name start rule =
     (let len = length start;
          start' = (if len > 0 \<and> start ! (len - 1) = newline then take (len - 1) start
                    else start)
      in rule\<lparr>rule_module_name := Some start'\<rparr>)"

definition restrict_topics_str :: string where "restrict_topics_str = ''restrict_topics:''"
definition module_str :: string where "module_str = ''module:''"
definition ignore_others :: string where "ignore_others = ''ignore_others:''"

text \<open>
  The body of the \<open>while\<close> loop on one line (the C string in the line buffer): the
  new \<open>ret\<close> and the rule.
\<close>

definition rules_line :: "string \<Rightarrow> PublisherRule \<Rightarrow> fault + (int \<times> PublisherRule)" where
  "rules_line line rule =
     (if length line < 2 \<or> hd line = CHR ''#'' then Inr (OK, rule)
      else if startsWith restrict_topics_str line then
        (case read_topics (strTrim (drop (length restrict_topics_str) line)) rule of
           Inl f \<Rightarrow> Inl f
         | Inr rule' \<Rightarrow> Inr (OK, rule'))
      else if startsWith module_str line then
        Inr (OK, read_module_name (strTrim (drop (length module_str) line)) rule)
      else if startsWith ignore_others line then
        (if startsWith ''true'' (strTrim (drop (length ignore_others) line))
         then Inr (OK, rule\<lparr>ignore_other_topics := True\<rparr>)
         else Inr (OK, rule))
      else Inr (- EINVAL, rule))"

lemma take_line_shorter:
  "0 < k \<Longrightarrow> cs \<noteq> [] \<Longrightarrow> length (snd (take_line k cs)) < length cs"
proof (induction k cs rule: take_line.induct)
  case (3 k c cs)
  then show ?case
    by (cases k; cases cs) (auto split: prod.splits)
qed simp_all

function rules_loop ::
  "string \<Rightarrow> int \<Rightarrow> PublisherRule \<Rightarrow> fault + (int \<times> PublisherRule)" where
  "rules_loop content ret rule =
     (case fgets line_len content of
        None \<Rightarrow> Inr (ret, rule)
      | Some (line, rest) \<Rightarrow>
          if ret = OK then
            (case rules_line (cstr line) rule of
               Inl f \<Rightarrow> Inl f
             | Inr (ret', rule') \<Rightarrow> rules_loop rest ret' rule')
          else Inr (ret, rule))"
  by pat_completeness auto
termination
proof (relation "measure (\<lambda>(content, ret, rule). length content)")
  fix content :: string and ret :: int and rule :: PublisherRule
    and x2 line rest x2a x1 y
  assume "fgets line_len content = Some x2" and "(line, rest) = x2"
  then have "content \<noteq> []" and "rest = snd (take_line (line_len - 1) content)"
    by (auto simp: fgets_def split: if_splits)
  then have "length rest < length content"
    using take_line_shorter [of "line_len - 1" content] by (simp add: line_len_def)
  then show "((rest, y, x1), content, ret, rule)
      \<in> measure (\<lambda>(content, ret, rule). length content)"
    by simp
qed simp

declare rules_loop.simps [simp del]

text \<open>
  \<open>file\<close> is what \<open>fopen\<close> gives: the errno of a failed open, or the content of the
  file. The rule is passed by reference; the result carries it as it is afterwards.
\<close>

definition readPublisherRulesFromFile ::
  "int + string \<Rightarrow> PublisherRule \<Rightarrow> fault + (int \<times> PublisherRule)" where
  "readPublisherRulesFromFile file rule =
     (case file of
        Inl e \<Rightarrow> Inr (- e, rule)
      | Inr content \<Rightarrow>
          (case rules_loop content OK
                  (rule\<lparr>ignore_other_topics := False, rule_module_name := None,
                        topics := None\<rparr>) of
             Inl f \<Rightarrow> Inl f
           | Inr (ret, rule') \<Rightarrow>
               if ret = OK \<and> (rule_module_name rule' = None \<or> topics rule' = None)
               then Inr (- EINVAL, rule')
               else Inr (ret, rule')))"

text \<open>
  The constructor \<open>Manager::Manager()\<close>: with \<open>ORB_USE_PUBLISHER_RULES\<close> it reads
  the rules file and sets \<open>_has_publisher_rules\<close> when that returned \<open>OK\<close>. The
  members start as the class declares them: no rules, an empty set of remote topics.
\<close>

definition Manager_new :: "bool \<Rightarrow> bool \<Rightarrow> int + string \<Rightarrow> fault + Manager" where
  "Manager_new use_publisher_rules communicator file =
     (let mgr = \<lparr>ORB_USE_PUBLISHER_RULES = use_publisher_rules,
                 ORB_COMMUNICATOR = communicator,
                 has_publisher_rules = False,
                 publisher_rule =
                   \<lparr>topics = None, rule_module_name = None, ignore_other_topics = False\<rparr>,
                 remote_topics = {}\<rparr>
      in if use_publisher_rules then
           (case readPublisherRulesFromFile file (publisher_rule mgr) of
              Inl f \<Rightarrow> Inl f
            | Inr (ret, rule) \<Rightarrow>
                Inr (mgr\<lparr>has_publisher_rules := (ret = OK), publisher_rule := rule\<rparr>))
         else Inr mgr)"

section \<open>A device layer for the manager\<close>

text \<open>
  Modelled from the spec: the device layer that the manager calls (\<open>uORB::DeviceNode\<close>,
  \<open>uORB::DeviceMaster\<close>, \<open>uORB::Utils::node_mkpath\<close> and the file operations on
  the node devices) lives in other files of the repository, outside \<open>uORBManager.cxx\<close>.
  Every definition of this section follows the specification: its data model (TopicNode,
  SubscriberState, Registry), its node operations \<open>write\<close> and \<open>read\<close>, its
  "updated" predicate, its queue-size rule, its instance allocation and its paths. They
  give the manager's functions a concrete layer to run on.
\<close>

text \<open>
  Modelled from the spec: the TopicNode of one (name, instance) pair, the
  SubscriberState of one subscriber, and the registry (here with the table of open
  descriptors, a clock and the name of the running task).
\<close>

record TopicNode =
  n_payload_size :: "16 word"
  n_queue_size :: nat
  n_ring :: "payload list"
  n_generation :: "32 word"
  n_priority :: int
  n_advertised :: bool
  n_publisher_count :: nat
  n_last_publication_us :: nat

record SubscriberState =
  s_node_ref :: string
  s_last_generation :: "32 word"
  s_interval_us :: "32 word"
  s_last_copy_time_us :: nat
  s_seen :: bool

datatype open_file = MasterFile | PublisherFile string | SubscriberFile SubscriberState

record Broker =
  nodes :: "string \<rightharpoonup> TopicNode"
  files :: "int \<rightharpoonup> open_file"
  next_fd :: nat
  now_us :: nat
  task_name :: string

text \<open>
  Modelled from the spec: \<open>MAX_PATH\<close> = 128 and instances 0..3. The path of the master
  device and the errno for "no data" are not fixed by the specification; the values here
  are the usual ones.
\<close>

definition MAX_PATH :: nat where "MAX_PATH = 128"
definition MAX_INSTANCES :: nat where "MAX_INSTANCES = 4"
definition master_path :: string where "master_path = ''/obj/_obj_''"
definition ENODATA :: int where "ENODATA = 61"

text \<open>
  Modelled from the spec: the path formatter, \<open>/obj/<name>\<close> for instance 0 and
  \<open>/obj/<name><n>\<close> otherwise, at most \<open>MAX_PATH\<close> characters.
\<close>

fun decimal_nat :: "nat \<Rightarrow> string" where
  "decimal_nat n =
     (if n < 10 then [''0123456789'' ! n]
      else decimal_nat (n div 10) @ [''0123456789'' ! (n mod 10)])"

definition decimal :: "int \<Rightarrow> string" where
  "decimal i = (if i < 0 then CHR ''-'' # decimal_nat (nat (- i)) else decimal_nat (nat i))"

definition node_path :: "string \<Rightarrow> int \<Rightarrow> string" where
  "node_path name i = ''/obj/'' @ name @ (if i = 0 then [] else decimal i)"

definition spec_mkpath :: "orb_metadata option \<Rightarrow> int option \<Rightarrow> int \<times> string" where
  "spec_mkpath meta instance =
     (case meta of
        None \<Rightarrow> (- ENOENT, [])
      | Some m \<Rightarrow>
          (let path = node_path (o_name m) (case instance of None \<Rightarrow> 0 | Some i \<Rightarrow> i)
           in if length path \<le> MAX_PATH then (OK, path) else (- ENAMETOOLONG, path)))"

text \<open>
  Modelled from the spec: the file operations on the node devices. A node is created on
  first advertise or subscribe and never destroyed; \<open>stat\<close> and \<open>open\<close> succeed on
  the path of an existing node (and on the master device), \<open>open\<close> for reading
  allocates the SubscriberState (\<open>seen = false\<close>, no interval).
\<close>

definition spec_stat :: "string \<Rightarrow> Broker world \<Rightarrow> int \<times> Broker world" where
  "spec_stat path w =
     (if path = master_path \<or> nodes (dev w) path \<noteq> None then (0, w)
      else (-1, w\<lparr>errno := ENOENT\<rparr>))"

definition new_subscriber :: "string \<Rightarrow> SubscriberState" where
  "new_subscriber path =
     \<lparr>s_node_ref = path, s_last_generation = 0, s_interval_us = 0,
      s_last_copy_time_us = 0, s_seen = False\<rparr>"

definition install_file :: "open_file \<Rightarrow> Broker world \<Rightarrow> int \<times> Broker world" where
  "install_file f w =
     (let b = dev w; fd = int (next_fd b)
      in (fd, w\<lparr>dev := b\<lparr>files := (files b)(fd \<mapsto> f), next_fd := next_fd b + 1\<rparr>\<rparr>))"

definition spec_open :: "string \<Rightarrow> open_flags \<Rightarrow> Broker world \<Rightarrow> int \<times> Broker world" where
  "spec_open path flags w =
     (if path = master_path then install_file MasterFile w
      else
        (case nodes (dev w) path of
           None \<Rightarrow> (-1, w\<lparr>errno := ENOENT\<rparr>)
         | Some n \<Rightarrow>
             install_file
               (if flags = O_WRONLY then PublisherFile path
                else SubscriberFile (new_subscriber path)) w))"

definition spec_close :: "int \<Rightarrow> Broker world \<Rightarrow> int \<times> Broker world" where
  "spec_close fd w =
     (case files (dev w) fd of
        None \<Rightarrow> (-1, w\<lparr>errno := EBADF\<rparr>)
      | Some f \<Rightarrow> (0, w\<lparr>dev := (dev w)\<lparr>files := (files (dev w))(fd := None)\<rparr>\<rparr>))"

text \<open>Modelled from the spec: the ring entry \<open>ring[g mod queue_size]\<close>.\<close>

definition ring_at :: "TopicNode \<Rightarrow> 32 word \<Rightarrow> payload" where
  "ring_at n g =
     (let i = unat g mod n_queue_size n
      in if i < length (n_ring n) then n_ring n ! i else [])"

text \<open>
  Modelled from the spec: \<open>TopicNode.read\<close>. The result is the sample delivered and
  the subscriber's state afterwards; \<open>None\<close> is "no data".
\<close>

definition node_read :: "nat \<Rightarrow> TopicNode \<Rightarrow> SubscriberState \<Rightarrow> (payload \<times> SubscriberState) option" where
  "node_read now n s =
     (let g = n_generation n; q = n_queue_size n in
      if g = 0 then None
      else if \<not> s_seen s then
        Some (ring_at n (g - 1),
              s\<lparr>s_last_generation := g, s_seen := True, s_last_copy_time_us := now\<rparr>)
      else
        (let behind = g - s_last_generation s in
         if behind = 0 then Some (ring_at n (g - 1), s\<lparr>s_last_copy_time_us := now\<rparr>)
         else if q \<le> unat behind then
           Some (ring_at n (g - of_nat q),
                 s\<lparr>s_last_generation := (if q = 1 then g else g - of_nat q + 1),
                   s_last_copy_time_us := now\<rparr>)
         else
           Some (ring_at n (s_last_generation s),
                 s\<lparr>s_last_generation := s_last_generation s + 1,
                   s_last_copy_time_us := now\<rparr>)))"

text \<open>
  Modelled from the spec: \<open>read\<close> on a subscriber's descriptor delegates to
  \<open>TopicNode.read\<close> and returns the number of bytes delivered; "no data" and a
  descriptor that is not a subscriber's are errors.
\<close>

definition spec_read ::
  "int \<Rightarrow> payload \<Rightarrow> nat \<Rightarrow> Broker world \<Rightarrow> (int \<times> payload) \<times> Broker world" where
  "spec_read fd buffer buflen w =
     (case files (dev w) fd of
        Some (SubscriberFile s) \<Rightarrow>
          (case nodes (dev w) (s_node_ref s) of
             None \<Rightarrow> ((-1, buffer), w\<lparr>errno := EIO\<rparr>)
           | Some n \<Rightarrow>
               (case node_read (now_us (dev w)) n s of
                  None \<Rightarrow> ((-1, buffer), w\<lparr>errno := ENODATA\<rparr>)
                | Some (sample, s') \<Rightarrow>
                    ((int (length sample), sample),
                     w\<lparr>dev := (dev w)\<lparr>files := (files (dev w))(fd \<mapsto> SubscriberFile s')\<rparr>\<rparr>)))
      | _ \<Rightarrow> ((-1, buffer), w\<lparr>errno := EBADF\<rparr>))"

text \<open>
  Modelled from the spec: "updated" is \<open>generation - last_generation \<ge> 1\<close> and, when
  an interval is set, \<open>now - last_copy_time_us \<ge> interval_us\<close>.
\<close>

definition subscriber_updated :: "nat \<Rightarrow> TopicNode \<Rightarrow> SubscriberState \<Rightarrow> bool" where
  "subscriber_updated now n s =
     (n_generation n - s_last_generation s \<noteq> 0 \<and>
      (s_interval_us s = 0 \<or> unat (s_interval_us s) \<le> now - s_last_copy_time_us s))"

text \<open>
  Modelled from the spec: the queue size is installed (at least 1) at the first
  advertise, when the ring is allocated; a later request for a larger size fails and
  changes nothing.
\<close>

definition set_queue_size :: "nat \<Rightarrow> TopicNode \<Rightarrow> TopicNode option" where
  "set_queue_size q n =
     (if n_ring n = [] then
        Some (n\<lparr>n_queue_size := max 1 q, n_ring := replicate (max 1 q) []\<rparr>)
      else if n_queue_size n < q then None
      else Some n)"

text \<open>
  Modelled from the spec: the \<open>ioctl\<close> requests on a node: the queue size
  (at first advertise), the publisher handle (the publisher count goes up), whether the
  node is advertised, and for a subscriber the "updated" predicate and the interval.
\<close>

definition put_node :: "string \<Rightarrow> TopicNode \<Rightarrow> Broker world \<Rightarrow> Broker world" where
  "put_node path n w = w\<lparr>dev := (dev w)\<lparr>nodes := (nodes (dev w))(path \<mapsto> n)\<rparr>\<rparr>"

definition node_ioctl ::
  "string \<Rightarrow> TopicNode \<Rightarrow> ioctl_cmd \<Rightarrow> ioctl_arg \<Rightarrow> Broker world
     \<Rightarrow> (int \<times> ioctl_arg) \<times> Broker world" where
  "node_ioctl path n cmd arg w =
     (case cmd of
        ORBIOCSETQUEUESIZE \<Rightarrow>
          (case arg of
             ArgValue q \<Rightarrow>
               (case set_queue_size q n of
                  None \<Rightarrow> ((-1, arg), w\<lparr>errno := EINVAL\<rparr>)
                | Some n' \<Rightarrow> ((0, arg), put_node path n' w))
           | _ \<Rightarrow> ((-1, arg), w\<lparr>errno := EINVAL\<rparr>))
      | ORBIOCGADVERTISER \<Rightarrow>
          ((0, ArgAdvertPtr (DeviceNodePtr path)),
           put_node path (n\<lparr>n_publisher_count := n_publisher_count n + 1\<rparr>) w)
      | ORBIOCISPUBLISHED \<Rightarrow> ((0, ArgULongPtr (if n_advertised n then 1 else 0)), w)
      | _ \<Rightarrow> ((-1, arg), w\<lparr>errno := ENOTTY\<rparr>))"

definition subscriber_ioctl ::
  "int \<Rightarrow> SubscriberState \<Rightarrow> TopicNode \<Rightarrow> ioctl_cmd \<Rightarrow> ioctl_arg \<Rightarrow> Broker world
     \<Rightarrow> (int \<times> ioctl_arg) \<times> Broker world" where
  "subscriber_ioctl fd s n cmd arg w =
     (case cmd of
        ORBIOCUPDATED \<Rightarrow> ((0, ArgBoolPtr (subscriber_updated (now_us (dev w)) n s)), w)
      | ORBIOCSETINTERVAL \<Rightarrow>
          (case arg of
             ArgValue v \<Rightarrow>
               ((0, arg),
                w\<lparr>dev := (dev w)\<lparr>files :=
                     (files (dev w))(fd \<mapsto> SubscriberFile (s\<lparr>s_interval_us := of_nat v\<rparr>))\<rparr>\<rparr>)
           | _ \<Rightarrow> ((-1, arg), w\<lparr>errno := EINVAL\<rparr>))
      | ORBIOCGETINTERVAL \<Rightarrow> ((0, ArgUnsignedPtr (s_interval_us s)), w)
      | _ \<Rightarrow> node_ioctl (s_node_ref s) n cmd arg w)"

text \<open>
  Modelled from the spec: instances are allocated by scanning for the first free slot
  below \<open>MAX_INSTANCES\<close>, and the chosen index goes back through the in/out argument.
  The scan starts at the index the argument holds (0 for every advertiser, since
  \<open>node_open\<close> stores 0 there; the instance asked for, for a subscriber).
\<close>

fun first_free :: "(string \<rightharpoonup> TopicNode) \<Rightarrow> string \<Rightarrow> nat list \<Rightarrow> nat option" where
  "first_free ns name [] = None"
| "first_free ns name (i # is) =
     (if ns (node_path name (int i)) = None then Some i else first_free ns name is)"

text \<open>
  Modelled from the spec: a node as it is created (by the first advertise or by a
  subscribe): not advertised, generation 0, queue size 1, the priority of the request.
  With a null instance argument the node of instance 0 is created, or the request fails
  with \<open>EEXIST\<close> when it is there already.
\<close>

definition new_node :: "orb_metadata \<Rightarrow> int \<Rightarrow> TopicNode" where
  "new_node m prio =
     \<lparr>n_payload_size = o_size m, n_queue_size = 1, n_ring = [], n_generation = 0,
      n_priority = prio, n_advertised = False, n_publisher_count = 0,
      n_last_publication_us = 0\<rparr>"

definition master_advertise ::
  "ioctl_arg \<Rightarrow> Broker world \<Rightarrow> (int \<times> ioctl_arg) \<times> Broker world" where
  "master_advertise arg w =
     (case arg of
        ArgAdvertData (Some m) None prio \<Rightarrow>
          (let (ret, path) = spec_mkpath (Some m) None in
           if ret \<noteq> OK then ((-1, arg), w\<lparr>errno := - ret\<rparr>)
           else if nodes (dev w) path \<noteq> None then ((-1, arg), w\<lparr>errno := EEXIST\<rparr>)
           else ((0, arg), put_node path (new_node m prio) w))
      | ArgAdvertData (Some m) (Some i) prio \<Rightarrow>
          (if i < 0 then ((-1, arg), w\<lparr>errno := ENOMEM\<rparr>)
           else
             (case first_free (nodes (dev w)) (o_name m) [nat i ..< MAX_INSTANCES] of
                None \<Rightarrow> ((-1, arg), w\<lparr>errno := ENOMEM\<rparr>)
              | Some k \<Rightarrow>
                  (let (ret, path) = spec_mkpath (Some m) (Some (int k)) in
                   if ret \<noteq> OK then ((-1, arg), w\<lparr>errno := - ret\<rparr>)
                   else ((0, ArgAdvertData (Some m) (Some (int k)) prio),
                         put_node path (new_node m prio) w))))
      | _ \<Rightarrow> ((-1, arg), w\<lparr>errno := EINVAL\<rparr>))"

text \<open>
  Modelled from the spec: \<open>ioctl\<close> by the kind of the open descriptor (the master
  device, a publisher's or a subscriber's descriptor on a node).
\<close>

definition spec_ioctl ::
  "int \<Rightarrow> ioctl_cmd \<Rightarrow> ioctl_arg \<Rightarrow> Broker world \<Rightarrow> (int \<times> ioctl_arg) \<times> Broker world" where
  "spec_ioctl fd cmd arg w =
     (case files (dev w) fd of
        None \<Rightarrow> ((-1, arg), w\<lparr>errno := EBADF\<rparr>)
      | Some MasterFile \<Rightarrow>
          (if cmd = ORBIOCADVERTISE then master_advertise arg w
           else ((-1, arg), w\<lparr>errno := ENOTTY\<rparr>))
      | Some (PublisherFile path) \<Rightarrow>
          (case nodes (dev w) path of
             None \<Rightarrow> ((-1, arg), w\<lparr>errno := EIO\<rparr>)
           | Some n \<Rightarrow> node_ioctl path n cmd arg w)
      | Some (SubscriberFile s) \<Rightarrow>
          (case nodes (dev w) (s_node_ref s) of
             None \<Rightarrow> ((-1, arg), w\<lparr>errno := EIO\<rparr>)
           | Some n \<Rightarrow> subscriber_ioctl fd s n cmd arg w))"

text \<open>
  Modelled from the spec: \<open>TopicNode.write\<close> (the sample goes to
  \<open>ring[generation mod queue_size]\<close>, then the generation is incremented) and
  unadvertise (the publisher count goes down; at zero the node is no longer advertised).
\<close>

definition node_write :: "nat \<Rightarrow> payload \<Rightarrow> TopicNode \<Rightarrow> TopicNode" where
  "node_write now d n =
     (let r = (if n_ring n = [] then replicate (n_queue_size n) [] else n_ring n)
      in n\<lparr>n_ring := r[unat (n_generation n) mod n_queue_size n := d],
           n_generation := n_generation n + 1,
           n_advertised := True,
           n_last_publication_us := now\<rparr>)"

definition spec_publish ::
  "orb_metadata option \<Rightarrow> orb_advert_t \<Rightarrow> payload option \<Rightarrow> Broker world \<Rightarrow> int \<times> Broker world" where
  "spec_publish meta handle data w =
     (case (handle, data) of
        (DeviceNodePtr path, Some d) \<Rightarrow>
          (case nodes (dev w) path of
             None \<Rightarrow> (-1, w\<lparr>errno := EIO\<rparr>)
           | Some n \<Rightarrow> (OK, put_node path (node_write (now_us (dev w)) d n) w))
      | _ \<Rightarrow> (-1, w\<lparr>errno := EINVAL\<rparr>))"

definition spec_unadvertise :: "orb_advert_t \<Rightarrow> Broker world \<Rightarrow> int \<times> Broker world" where
  "spec_unadvertise handle w =
     (case handle of
        DeviceNodePtr path \<Rightarrow>
          (case nodes (dev w) path of
             None \<Rightarrow> (-1, w\<lparr>errno := EINVAL\<rparr>)
           | Some n \<Rightarrow>
               (OK, put_node path
                      (n\<lparr>n_publisher_count := n_publisher_count n - 1,
                         n_advertised := (n_advertised n \<and> 1 < n_publisher_count n)\<rparr>) w))
      | _ \<Rightarrow> (-1, w\<lparr>errno := EINVAL\<rparr>))"

text \<open>
  Modelled from the spec: the device layer as a whole. No remote bridge is attached, so
  announcing an advertisement changes nothing. The default priority is not fixed by the
  specification.
\<close>

definition spec_ops :: "Broker sysops" where
  "spec_ops =
     \<lparr>sys_stat = spec_stat, sys_open = spec_open, sys_close = spec_close,
      sys_read = spec_read, sys_ioctl = spec_ioctl, node_mkpath = spec_mkpath,
      DeviceNode_publish = spec_publish, DeviceNode_unadvertise = spec_unadvertise,
      DeviceNode_topic_advertised = (\<lambda>meta priority w. w),
      px4_get_taskname = (\<lambda>w. task_name (dev w)),
      TOPIC_MASTER_DEVICE_PATH = master_path, ORB_PRIO_DEFAULT = 75\<rparr>"

text \<open>
  Modelled from the spec: the broker at start, with no node and no open file
  (descriptors are handed out from 3 on).
\<close>

definition boot :: "string \<Rightarrow> Broker world" where
  "boot task =
     \<lparr>errno = 0,
      dev = \<lparr>nodes = Map.empty, files = Map.empty, next_fd = 3, now_us = 0,
             task_name = task\<rparr>\<rparr>"

section \<open>Concrete inputs\<close>

text \<open>
  The rules file of the specification's scenario "publisher rule denial", the manager
  that the constructor builds from it, and a topic descriptor.
\<close>

definition att :: orb_metadata where "att = \<lparr>o_name = ''att'', o_size = 2\<rparr>"

definition estimator_rules :: string where
  "estimator_rules =
     ''module: estimator'' @ [newline] @ ''restrict_topics: att'' @ [newline]
       @ ''ignore_others: true'' @ [newline]"

definition rules_manager :: Manager where
  "rules_manager =
     \<lparr>ORB_USE_PUBLISHER_RULES = True, ORB_COMMUNICATOR = False, has_publisher_rules = True,
      publisher_rule =
        \<lparr>topics = Some [''att''], rule_module_name = Some ''estimator'',
         ignore_other_topics = True\<rparr>,
      remote_topics = {}\<rparr>"

text \<open>
  The world after the first advertise of \<open>att\<close> on a fresh broker, and after a
  subscribe that follows it; a second descriptor; a manager without rules, built with
  the communicator.
\<close>

definition att_node :: TopicNode where
  "att_node =
     \<lparr>n_payload_size = 2, n_queue_size = 1, n_ring = [[1, 2]], n_generation = 1,
      n_priority = 75, n_advertised = True, n_publisher_count = 1,
      n_last_publication_us = 0\<rparr>"

definition advertised_world :: "Broker world" where
  "advertised_world =
     \<lparr>errno = ENOENT,
      dev = \<lparr>nodes = [''/obj/att'' \<mapsto> att_node], files = Map.empty, next_fd = 5,
             now_us = 0, task_name = ''estimator''\<rparr>\<rparr>"

definition subscribed_world :: "Broker world" where
  "subscribed_world =
     advertised_world
       \<lparr>dev := (dev advertised_world)
          \<lparr>files := [5 \<mapsto> SubscriberFile (new_subscriber ''/obj/att'')], next_fd := 6\<rparr>\<rparr>"

definition baro :: orb_metadata where "baro = \<lparr>o_name = ''baro'', o_size = 2\<rparr>"

definition remote_manager :: Manager where
  "remote_manager =
     \<lparr>ORB_USE_PUBLISHER_RULES = False, ORB_COMMUNICATOR = True, has_publisher_rules = False,
      publisher_rule =
        \<lparr>topics = None, rule_module_name = None, ignore_other_topics = False\<rparr>,
      remote_topics = {}\<rparr>"

text \<open>
  A device whose first \<open>read\<close> comes back one byte short and whose later reads
  deliver the full buffer; its state counts the reads. Every other operation fails.
\<close>

definition flaky_read :: "int \<Rightarrow> payload \<Rightarrow> nat \<Rightarrow> nat world \<Rightarrow> (int \<times> payload) \<times> nat world" where
  "flaky_read fd buffer buflen w =
     (if dev w = 0 then ((int buflen - 1, buffer), w\<lparr>dev := 1\<rparr>)
      else ((int buflen, replicate buflen 0), w\<lparr>dev := dev w + 1\<rparr>))"

definition flaky_ops :: "nat sysops" where
  "flaky_ops =
     \<lparr>sys_stat = (\<lambda>path w. (-1, w)), sys_open = (\<lambda>path flags w. (-1, w)),
      sys_close = (\<lambda>fd w. (0, w)), sys_read = flaky_read,
      sys_ioctl = (\<lambda>fd cmd arg w. ((-1, arg), w)),
      node_mkpath = (\<lambda>meta instance. (OK, [])),
      DeviceNode_publish = (\<lambda>meta handle data w. (-1, w)),
      DeviceNode_unadvertise = (\<lambda>handle w. (-1, w)),
      DeviceNode_topic_advertised = (\<lambda>meta priority w. w),
      px4_get_taskname = (\<lambda>w. []),
      TOPIC_MASTER_DEVICE_PATH = [], ORB_PRIO_DEFAULT = 75\<rparr>"

text \<open>
  A driver's \<open>ioctl\<close> that fails does not write through its argument: the variable
  behind the pointer is what it was.
\<close>

definition failed_ioctl_keeps_arg :: "'d sysops \<Rightarrow> bool" where
  "failed_ioctl_keeps_arg ops =
     (\<forall>fd cmd arg w. fst (fst (sys_ioctl ops fd cmd arg w)) < 0
        \<longrightarrow> snd (fst (sys_ioctl ops fd cmd arg w)) = arg)"

text \<open>The characters that \<open>strTrim\<close> skips, and the two that end a topic.\<close>

definition blank :: "char \<Rightarrow> bool" where
  "blank c = (c = CHR '' '' \<or> c = tab)"

definition separator :: "char \<Rightarrow> bool" where
  "separator c = (c = CHR '','' \<or> c = newline)"

text \<open>
  The text of a \<open>restrict_topics:\<close> line after the key: topics separated by commas,
  the last one followed by the newline; and the text of one topic.
\<close>

fun joined :: "string list \<Rightarrow> string" where
  "joined [] = []"
| "joined [t] = t @ [newline]"
| "joined (t # t' # ts) = t @ CHR '','' # joined (t' # ts)"

definition topic_text :: "string \<Rightarrow> bool" where
  "topic_text t = (t \<noteq> [] \<and> CHR '','' \<notin> set t \<and> newline \<notin> set t \<and> NUL \<notin> set t)"

section \<open>Properties\<close>

subsection \<open>Facts about the device layer and the concrete inputs\<close>

lemma node_ioctl_keeps_arg:
  "fst (fst (node_ioctl path n cmd arg w)) < 0 \<Longrightarrow> snd (fst (node_ioctl path n cmd arg w)) = arg"
  by (auto simp: node_ioctl_def split: ioctl_cmd.splits ioctl_arg.splits option.splits)

lemma subscriber_ioctl_keeps_arg:
  "fst (fst (subscriber_ioctl fd s n cmd arg w)) < 0
     \<Longrightarrow> snd (fst (subscriber_ioctl fd s n cmd arg w)) = arg"
  using node_ioctl_keeps_arg [of "s_node_ref s" n cmd arg w]
  by (auto simp: subscriber_ioctl_def split: ioctl_cmd.splits ioctl_arg.splits)

lemma master_advertise_keeps_arg:
  "fst (fst (master_advertise arg w)) < 0 \<Longrightarrow> snd (fst (master_advertise arg w)) = arg"
  by (auto simp: master_advertise_def Let_def
           split: ioctl_arg.splits option.splits prod.splits if_splits)

lemma spec_ioctl_keeps_arg:
  "fst (fst (spec_ioctl fd cmd arg w)) < 0 \<Longrightarrow> snd (fst (spec_ioctl fd cmd arg w)) = arg"
  using node_ioctl_keeps_arg subscriber_ioctl_keeps_arg master_advertise_keeps_arg
  by (auto simp: spec_ioctl_def split: option.splits open_file.splits if_splits)

lemma spec_ops_keeps_arg: "failed_ioctl_keeps_arg spec_ops"
  by (simp add: failed_ioctl_keeps_arg_def spec_ops_def spec_ioctl_keeps_arg)

lemma estimator_rules_read:
  "readPublisherRulesFromFile (Inr estimator_rules)
     \<lparr>topics = None, rule_module_name = None, ignore_other_topics = False\<rparr>
   = Inr (OK, \<lparr>topics = Some [''att''], rule_module_name = Some ''estimator'',
                  ignore_other_topics = True\<rparr>)"
  by code_simp

lemma estimator_rules_loaded: "Manager_new True False (Inr estimator_rules) = Inr rules_manager"
  by (simp add: Manager_new_def estimator_rules_read rules_manager_def)

lemma loaded_rule_complete:
  "readPublisherRulesFromFile (Inr content) rule = Inr (OK, rule')
     \<Longrightarrow> rule_module_name rule' \<noteq> None \<and> topics rule' \<noteq> None"
  by (auto simp: readPublisherRulesFromFile_def EINVAL_def
           split: sum.splits prod.splits if_splits)

lemma findTopic_loop_set: "findTopic_loop ts t = (t \<in> set ts)"
  by (induction ts) auto

lemma spec_mkpath_ok:
  "length (node_path (o_name m) i) \<le> MAX_PATH
     \<Longrightarrow> spec_mkpath (Some m) (Some i) = (OK, node_path (o_name m) i)"
  "length (node_path (o_name m) 0) \<le> MAX_PATH
     \<Longrightarrow> spec_mkpath (Some m) None = (OK, node_path (o_name m) 0)"
  by (simp_all add: spec_mkpath_def)

lemma node_open_existing:
  assumes "nodes (dev w) (node_path (o_name m) 0) = Some n"
    and "length (node_path (o_name m) 0) \<le> MAX_PATH"
    and "node_path (o_name m) 0 \<noteq> master_path"
  shows "node_open spec_ops (Some m) (Some d) True None priority w
           = ((int (next_fd (dev w)), None),
              snd (install_file (PublisherFile (node_path (o_name m) 0)) w))"
  using assms
  by (simp add: node_open_def spec_ops_def spec_mkpath_ok spec_open_def
      node_open_advertise_def node_open_result_def install_file_def Let_def)

lemma advertise_existing:
  assumes "nodes (dev w) (node_path (o_name m) 0) = Some n"
    and "length (node_path (o_name m) 0) \<le> MAX_PATH"
    and "node_path (o_name m) 0 \<noteq> master_path"
  shows "advertise_node spec_ops mgr (Some m) (Some d) None priority queue_size w =
     Inr ((DeviceNodePtr (node_path (o_name m) 0), None),
          w\<lparr>errno := (if set_queue_size (unat queue_size) n = None then EINVAL else errno w),
            dev := (dev w)
              \<lparr>next_fd := Suc (next_fd (dev w)),
               files := (files (dev w))(int (next_fd (dev w)) := None),
               nodes := (nodes (dev w))(node_path (o_name m) 0 \<mapsto>
                  node_write (now_us (dev w)) d
                    ((case set_queue_size (unat queue_size) n of None \<Rightarrow> n | Some n' \<Rightarrow> n')
                       \<lparr>n_publisher_count :=
                          Suc (n_publisher_count
                            (case set_queue_size (unat queue_size) n of
                               None \<Rightarrow> n | Some n' \<Rightarrow> n'))\<rparr>))\<rparr>\<rparr>)"
  using assms
  apply (simp add: advertise_node_def node_open_existing)
  apply (simp add: spec_ops_def install_file_def Let_def spec_ioctl_def node_ioctl_def put_node_def spec_close_def orb_publish_def spec_publish_def split: option.splits)
  done



lemma path_att: "node_path (o_name att) 0 = ''/obj/att''"
  "length (node_path (o_name att) 0) \<le> MAX_PATH" "node_path (o_name att) 0 \<noteq> master_path"
  by (simp_all add: node_path_def att_def MAX_PATH_def master_path_def)


lemma no_rules_check: "publisher_rule_check remote_manager prog meta = Inr False"
  by (simp add: publisher_rule_check_def remote_manager_def)


lemma then_subscribe:
  "orb_subscribe spec_ops (Some att) advertised_world = (5, subscribed_world)"
  by (simp add: orb_subscribe_def node_open_def spec_ops_def spec_mkpath_def node_path_def
      MAX_PATH_def master_path_def spec_open_def advertised_world_def att_def
      node_open_advertise_def node_open_result_def install_file_def Let_def
      subscribed_world_def)

lemma word32_mul_div_1000:
  fixes v :: "32 word"
  assumes "unat v * 1000 < 2 ^ 32"
  shows "v * 1000 div 1000 = v"
proof -
  have "unat (v * 1000) = unat v * 1000"
    using assms by (simp add: unat_word_ariths)
  then have "unat (v * 1000 div 1000) = unat v"
    by (simp add: unat_div)
  then show ?thesis by (simp add: word_unat_eq_iff)
qed

subsection \<open>The sentinel publisher\<close>

text \<open>
  C1. When the publisher rules deny an advertise, \<open>orb_advertise_multi\<close> returns the
  sentinel handle (the manager's own address, which is not the null pointer that reports
  an error) and leaves the world as it was. Every publish through the sentinel, for any
  descriptor and payload and in any later world, returns \<open>OK\<close> and changes nothing:
  the device layer is not called, so no sample is stored and no generation is bumped.
  Unadvertise of the sentinel returns \<open>OK\<close> and changes nothing as well.
\<close>

theorem denied_advertise_sentinel:
  assumes "ORB_USE_PUBLISHER_RULES mgr"
    and "publisher_rule_check mgr (px4_get_taskname ops w) meta = Inr True"
  shows "orb_advertise_multi ops mgr meta data instance priority queue_size w
           = Inr ((ManagerInstance, instance), w)
       \<and> ManagerInstance \<noteq> nullptr
       \<and> orb_publish ops mgr meta' ManagerInstance data' w' = (OK, w')
       \<and> orb_unadvertise ops mgr ManagerInstance w' = (OK, w')"
  using assms by (simp add: orb_advertise_multi_def orb_publish_def orb_unadvertise_def)

theorem denied_advertise_sentinel_witness:
  "ORB_USE_PUBLISHER_RULES rules_manager
   \<and> publisher_rule_check rules_manager (px4_get_taskname spec_ops (boot ''mavlink'')) (Some att)
       = Inr True
   \<and> orb_advertise_multi spec_ops rules_manager (Some att) (Some [1, 2]) None 75 1 (boot ''mavlink'')
       = Inr ((ManagerInstance, None), boot ''mavlink'')
   \<and> orb_publish spec_ops rules_manager (Some att) ManagerInstance (Some [3, 4]) (boot ''mavlink'')
       = (OK, boot ''mavlink'')
   \<and> orb_unadvertise spec_ops rules_manager ManagerInstance (boot ''mavlink'')
       = (OK, boot ''mavlink'')"
proof -
  have u: "ORB_USE_PUBLISHER_RULES rules_manager" by (simp add: rules_manager_def)
  have d: "publisher_rule_check rules_manager (px4_get_taskname spec_ops (boot ''mavlink''))
             (Some att) = Inr True"
    by (simp add: publisher_rule_check_def rules_manager_def spec_ops_def boot_def att_def
        findTopic_def)
  from denied_advertise_sentinel [OF u d] u d show ?thesis by simp
qed

subsection \<open>The decision of the publisher rule\<close>

lemma gadvertiser_not_sentinel:
  "spec_ioctl fd ORBIOCGADVERTISER (ArgAdvertPtr nullptr) w = ((r, a), w')
     \<Longrightarrow> advert_pointee nullptr a \<noteq> ManagerInstance"
  by (auto simp: spec_ioctl_def node_ioctl_def subscriber_ioctl_def
      split: option.splits open_file.splits)

lemma advertise_node_not_sentinel:
  "advertise_node spec_ops mgr meta data instance priority queue_size w
     \<noteq> Inr ((ManagerInstance, i'), w')"
proof -
  have s: "sys_ioctl spec_ops = spec_ioctl" by (simp add: spec_ops_def)
  show ?thesis
    by (auto simp: advertise_node_def s Let_def dest: gadvertiser_not_sentinel
        split: prod.splits if_splits)
qed

lemma rules_first_advertise:
  "advertise_node spec_ops rules_manager (Some att) (Some [1, 2]) None 75 1 (boot ''estimator'')
     = Inr ((DeviceNodePtr ''/obj/att'', None), advertised_world)"
  by (simp add: advertise_node_def node_open_def
      spec_ops_def spec_mkpath_def node_path_def MAX_PATH_def master_path_def
      spec_open_def boot_def errno_defs
      node_open_advertise_def node_advertise_def install_file_def Let_def spec_ioctl_def
      master_advertise_def put_node_def spec_close_def node_open_result_def
      node_ioctl_def set_queue_size_def new_node_def orb_publish_def spec_publish_def
      node_write_def advertised_world_def att_node_def rules_manager_def att_def)

text \<open>
  C2. With a publisher rule loaded (module name and topics list present, as in every
  rule that \<open>readPublisherRulesFromFile\<close> returns with \<open>OK\<close>), every call of
  \<open>orb_advertise_multi\<close> is decided by the name of the calling task
  (\<open>px4_get_taskname\<close>) and the name of the topic. A denied advertise returns the
  sentinel handle and leaves the world as it was; an allowed advertise goes on to open
  the node, and its result is that of the code after the check. If the caller's name
  equals the rule's module name and \<open>ignore_other_topics\<close> is set, the advertise is
  allowed when the topic name is in the topics list and denied when it is not. If the
  caller's name differs from the module name, the advertise is denied when the topic
  name is in the topics list and allowed when it is not. In the remaining case (the
  names are equal and \<open>ignore_other_topics\<close> is not set) the advertise is allowed.
  Over the device layer an allowed advertise never returns the sentinel, so there the
  sentinel comes back exactly in the denied cases. The check itself answers "denied"
  (\<open>Inr True\<close>) or "allowed" (\<open>Inr False\<close>) in exactly these cases, for every
  caller name.
\<close>

theorem publisher_rule_decision:
  assumes "ORB_USE_PUBLISHER_RULES mgr" and "has_publisher_rules mgr"
    and "rule_module_name (publisher_rule mgr) = Some mn"
    and "topics (publisher_rule mgr) = Some ts"
  shows "(px4_get_taskname ops w = mn \<and> ignore_other_topics (publisher_rule mgr) \<longrightarrow>
            (o_name m \<in> set ts \<longrightarrow>
               orb_advertise_multi ops mgr (Some m) data inst priority queue_size w
                 = advertise_node ops mgr (Some m) data inst priority queue_size w) \<and>
            (o_name m \<notin> set ts \<longrightarrow>
               orb_advertise_multi ops mgr (Some m) data inst priority queue_size w
                 = Inr ((ManagerInstance, inst), w)))
       \<and> (px4_get_taskname ops w \<noteq> mn \<longrightarrow>
            (o_name m \<in> set ts \<longrightarrow>
               orb_advertise_multi ops mgr (Some m) data inst priority queue_size w
                 = Inr ((ManagerInstance, inst), w)) \<and>
            (o_name m \<notin> set ts \<longrightarrow>
               orb_advertise_multi ops mgr (Some m) data inst priority queue_size w
                 = advertise_node ops mgr (Some m) data inst priority queue_size w))
       \<and> (px4_get_taskname ops w = mn \<and> \<not> ignore_other_topics (publisher_rule mgr) \<longrightarrow>
            orb_advertise_multi ops mgr (Some m) data inst priority queue_size w
              = advertise_node ops mgr (Some m) data inst priority queue_size w)
       \<and> (px4_get_taskname spec_ops b = mn \<and> ignore_other_topics (publisher_rule mgr) \<longrightarrow>
            ((\<exists>i' b'. orb_advertise_multi spec_ops mgr (Some m) data inst priority
                         queue_size b = Inr ((ManagerInstance, i'), b'))
               \<longleftrightarrow> o_name m \<notin> set ts))
       \<and> (px4_get_taskname spec_ops b \<noteq> mn \<longrightarrow>
            ((\<exists>i' b'. orb_advertise_multi spec_ops mgr (Some m) data inst priority
                         queue_size b = Inr ((ManagerInstance, i'), b'))
               \<longleftrightarrow> o_name m \<in> set ts))
       \<and> (px4_get_taskname spec_ops b = mn \<and> \<not> ignore_other_topics (publisher_rule mgr) \<longrightarrow>
            \<not> (\<exists>i' b'. orb_advertise_multi spec_ops mgr (Some m) data inst priority
                          queue_size b = Inr ((ManagerInstance, i'), b')))
       \<and> (prog = mn \<and> ignore_other_topics (publisher_rule mgr) \<longrightarrow>
            (publisher_rule_check mgr prog (Some m) = Inr False \<longleftrightarrow> o_name m \<in> set ts) \<and>
            (publisher_rule_check mgr prog (Some m) = Inr True \<longleftrightarrow> o_name m \<notin> set ts))
       \<and> (prog \<noteq> mn \<longrightarrow>
            (publisher_rule_check mgr prog (Some m) = Inr True \<longleftrightarrow> o_name m \<in> set ts) \<and>
            (publisher_rule_check mgr prog (Some m) = Inr False \<longleftrightarrow> o_name m \<notin> set ts))
       \<and> (prog = mn \<and> \<not> ignore_other_topics (publisher_rule mgr) \<longrightarrow>
            publisher_rule_check mgr prog (Some m) = Inr False)"
proof -
  have c: "publisher_rule_check mgr p (Some m)
             = Inr (if p = mn then ignore_other_topics (publisher_rule mgr) \<and> o_name m \<notin> set ts
                    else o_name m \<in> set ts)" for p
    using assms by (simp add: publisher_rule_check_def findTopic_def findTopic_loop_set)
  have a: "orb_advertise_multi ops' mgr (Some m) data inst priority queue_size w'
             = (if (if px4_get_taskname ops' w' = mn
                    then ignore_other_topics (publisher_rule mgr) \<and> o_name m \<notin> set ts
                    else o_name m \<in> set ts)
                then Inr ((ManagerInstance, inst), w')
                else advertise_node ops' mgr (Some m) data inst priority queue_size w')"
    for ops' :: "'e sysops" and w'
    by (simp add: orb_advertise_multi_def c)
  have g: "(px4_get_taskname ops w = mn \<and> ignore_other_topics (publisher_rule mgr) \<longrightarrow>
            (o_name m \<in> set ts \<longrightarrow>
               orb_advertise_multi ops mgr (Some m) data inst priority queue_size w
                 = advertise_node ops mgr (Some m) data inst priority queue_size w) \<and>
            (o_name m \<notin> set ts \<longrightarrow>
               orb_advertise_multi ops mgr (Some m) data inst priority queue_size w
                 = Inr ((ManagerInstance, inst), w)))
       \<and> (px4_get_taskname ops w \<noteq> mn \<longrightarrow>
            (o_name m \<in> set ts \<longrightarrow>
               orb_advertise_multi ops mgr (Some m) data inst priority queue_size w
                 = Inr ((ManagerInstance, inst), w)) \<and>
            (o_name m \<notin> set ts \<longrightarrow>
               orb_advertise_multi ops mgr (Some m) data inst priority queue_size w
                 = advertise_node ops mgr (Some m) data inst priority queue_size w))
       \<and> (px4_get_taskname ops w = mn \<and> \<not> ignore_other_topics (publisher_rule mgr) \<longrightarrow>
            orb_advertise_multi ops mgr (Some m) data inst priority queue_size w
              = advertise_node ops mgr (Some m) data inst priority queue_size w)"
    by (simp add: a)
  have s: "(px4_get_taskname spec_ops b = mn \<and> ignore_other_topics (publisher_rule mgr) \<longrightarrow>
            ((\<exists>i' b'. orb_advertise_multi spec_ops mgr (Some m) data inst priority
                         queue_size b = Inr ((ManagerInstance, i'), b'))
               \<longleftrightarrow> o_name m \<notin> set ts))
       \<and> (px4_get_taskname spec_ops b \<noteq> mn \<longrightarrow>
            ((\<exists>i' b'. orb_advertise_multi spec_ops mgr (Some m) data inst priority
                         queue_size b = Inr ((ManagerInstance, i'), b'))
               \<longleftrightarrow> o_name m \<in> set ts))
       \<and> (px4_get_taskname spec_ops b = mn \<and> \<not> ignore_other_topics (publisher_rule mgr) \<longrightarrow>
            \<not> (\<exists>i' b'. orb_advertise_multi spec_ops mgr (Some m) data inst priority
                          queue_size b = Inr ((ManagerInstance, i'), b')))"
    by (simp add: a advertise_node_not_sentinel)
  have h: "(prog = mn \<and> ignore_other_topics (publisher_rule mgr) \<longrightarrow>
            (publisher_rule_check mgr prog (Some m) = Inr False \<longleftrightarrow> o_name m \<in> set ts) \<and>
            (publisher_rule_check mgr prog (Some m) = Inr True \<longleftrightarrow> o_name m \<notin> set ts))
       \<and> (prog \<noteq> mn \<longrightarrow>
            (publisher_rule_check mgr prog (Some m) = Inr True \<longleftrightarrow> o_name m \<in> set ts) \<and>
            (publisher_rule_check mgr prog (Some m) = Inr False \<longleftrightarrow> o_name m \<notin> set ts))
       \<and> (prog = mn \<and> \<not> ignore_other_topics (publisher_rule mgr) \<longrightarrow>
            publisher_rule_check mgr prog (Some m) = Inr False)"
    by (simp add: c)
  from g s h show ?thesis by blast
qed

theorem publisher_rule_decision_witness:
  "ORB_USE_PUBLISHER_RULES rules_manager \<and> has_publisher_rules rules_manager
   \<and> rule_module_name (publisher_rule rules_manager) = Some ''estimator''
   \<and> topics (publisher_rule rules_manager) = Some [''att'']
   \<and> px4_get_taskname spec_ops (boot ''estimator'') = ''estimator''
   \<and> px4_get_taskname spec_ops (boot ''mavlink'') = ''mavlink''
   \<and> orb_advertise_multi spec_ops rules_manager (Some att) (Some [1, 2]) None 75 1
         (boot ''estimator'')
       = Inr ((DeviceNodePtr ''/obj/att'', None), advertised_world)
   \<and> orb_advertise_multi spec_ops rules_manager (Some baro) (Some [1, 2]) None 75 1
         (boot ''estimator'')
       = Inr ((ManagerInstance, None), boot ''estimator'')
   \<and> orb_advertise_multi spec_ops rules_manager (Some att) (Some [1, 2]) None 75 1
         (boot ''mavlink'')
       = Inr ((ManagerInstance, None), boot ''mavlink'')
   \<and> orb_advertise_multi spec_ops rules_manager (Some baro) (Some [1, 2]) None 75 1
         (boot ''mavlink'')
       = advertise_node spec_ops rules_manager (Some baro) (Some [1, 2]) None 75 1
           (boot ''mavlink'')
   \<and> publisher_rule_check rules_manager ''mavlink'' (Some att) = Inr True
   \<and> publisher_rule_check rules_manager ''estimator'' (Some att) = Inr False"
proof -
  have h: "ORB_USE_PUBLISHER_RULES rules_manager" "has_publisher_rules rules_manager"
    "rule_module_name (publisher_rule rules_manager) = Some ''estimator''"
    "topics (publisher_rule rules_manager) = Some [''att'']"
    by (simp_all add: rules_manager_def)
  have i: "ignore_other_topics (publisher_rule rules_manager)"
    by (simp add: rules_manager_def)
  have n: "o_name att \<in> set [''att'']" "o_name baro \<notin> set [''att'']"
    by (simp_all add: att_def baro_def)
  have t: "px4_get_taskname spec_ops (boot ''estimator'') = ''estimator''"
    "px4_get_taskname spec_ops (boot ''mavlink'') = ''mavlink''"
    "''mavlink'' \<noteq> ''estimator''"
    by (simp_all add: spec_ops_def boot_def)
  note e = publisher_rule_decision [OF h, where ops = spec_ops and w = "boot ''estimator''"
      and data = "Some [1, 2]" and inst = None and priority = 75 and queue_size = 1
      and prog = "''estimator''"]
  note v = publisher_rule_decision [OF h, where ops = spec_ops and w = "boot ''mavlink''"
      and data = "Some [1, 2]" and inst = None and priority = 75 and queue_size = 1
      and prog = "''mavlink''"]
  have 1: "orb_advertise_multi spec_ops rules_manager (Some att) (Some [1, 2]) None 75 1
             (boot ''estimator'')
           = Inr ((DeviceNodePtr ''/obj/att'', None), advertised_world)"
    using e [where m = att] t i n rules_first_advertise by simp
  have 2: "orb_advertise_multi spec_ops rules_manager (Some baro) (Some [1, 2]) None 75 1
             (boot ''estimator'')
           = Inr ((ManagerInstance, None), boot ''estimator'')"
    using e [where m = baro] t i n by simp
  have 3: "orb_advertise_multi spec_ops rules_manager (Some att) (Some [1, 2]) None 75 1
             (boot ''mavlink'')
           = Inr ((ManagerInstance, None), boot ''mavlink'')"
    using v [where m = att] t i n by simp
  have 4: "orb_advertise_multi spec_ops rules_manager (Some baro) (Some [1, 2]) None 75 1
             (boot ''mavlink'')
           = advertise_node spec_ops rules_manager (Some baro) (Some [1, 2]) None 75 1
               (boot ''mavlink'')"
    using v [where m = baro] t i n by simp
  have 5: "publisher_rule_check rules_manager ''mavlink'' (Some att) = Inr True"
    using v [where m = att] t i n by simp
  have 6: "publisher_rule_check rules_manager ''estimator'' (Some att) = Inr False"
    using e [where m = att] t i n by simp
  from h t(1,2) 1 2 3 4 5 6 show ?thesis by blast
qed

subsection \<open>Exists\<close>







subsection \<open>The interval of a subscriber\<close>

text \<open>
  C4, as the claim states it, does not hold: the product \<open>interval * 1000\<close> is
  computed in 32-bit unsigned arithmetic, so \<open>orb_set_interval\<close> with 4294968 stores
  704 microseconds and the following \<open>orb_get_interval\<close> returns 0.
\<close>

theorem interval_roundtrip_counterexample:
  "fst (orb_set_interval spec_ops 5 4294968 subscribed_world) = OK
   \<and> fst (orb_get_interval spec_ops 5 0
            (snd (orb_set_interval spec_ops 5 4294968 subscribed_world))) = (OK, 0)
   \<and> (4294968 :: 32 word) \<noteq> 0"
  by (simp add: orb_get_interval_def orb_set_interval_def spec_ops_def spec_ioctl_def
      subscriber_ioctl_def subscribed_world_def advertised_world_def new_subscriber_def)

text \<open>
  C4, amended. On a subscriber handle, \<open>orb_set_interval\<close> with the value \<open>v\<close>
  succeeds and stores \<open>v * 1000\<close> (modulo \<open>2^32\<close>) microseconds; a following
  \<open>orb_get_interval\<close> returns the stored value divided by 1000. So the value read back
  is \<open>v\<close> whenever \<open>v * 1000 < 2^32\<close>, that is for every \<open>v\<close> up to 4294967.
\<close>

theorem interval_roundtrip:
  assumes "files (dev w) handle = Some (SubscriberFile s)"
    and "nodes (dev w) (s_node_ref s) = Some n"
  shows "fst (orb_set_interval spec_ops handle v w) = OK
       \<and> files (dev (snd (orb_set_interval spec_ops handle v w))) handle
           = Some (SubscriberFile (s\<lparr>s_interval_us := v * 1000\<rparr>))
       \<and> fst (orb_get_interval spec_ops handle old (snd (orb_set_interval spec_ops handle v w)))
           = (OK, v * 1000 div 1000)
       \<and> (unat v * 1000 < 2 ^ 32 \<longrightarrow>
            fst (orb_get_interval spec_ops handle old
                   (snd (orb_set_interval spec_ops handle v w))) = (OK, v))"
  using assms
  by (simp add: orb_get_interval_def orb_set_interval_def spec_ops_def spec_ioctl_def
      subscriber_ioctl_def word32_mul_div_1000)

theorem interval_roundtrip_witness:
  "files (dev subscribed_world) 5 = Some (SubscriberFile (new_subscriber ''/obj/att''))
   \<and> nodes (dev subscribed_world) (s_node_ref (new_subscriber ''/obj/att'')) = Some att_node
   \<and> unat (20 :: 32 word) * 1000 < 2 ^ 32
   \<and> fst (orb_set_interval spec_ops 5 20 subscribed_world) = OK
   \<and> fst (orb_get_interval spec_ops 5 0 (snd (orb_set_interval spec_ops 5 20 subscribed_world)))
       = (OK, 20)"
proof -
  have f: "files (dev subscribed_world) 5 = Some (SubscriberFile (new_subscriber ''/obj/att''))"
    by (simp add: subscribed_world_def)
  have n: "nodes (dev subscribed_world) (s_node_ref (new_subscriber ''/obj/att''))
             = Some att_node"
    by (simp add: subscribed_world_def advertised_world_def new_subscriber_def)
  have b: "unat (20 :: 32 word) * 1000 < 2 ^ 32" by simp
  from interval_roundtrip [OF f n, of 20 0] f n b show ?thesis by simp
qed

subsection \<open>Advertise with a null instance on an existing node\<close>

text \<open>
  C5, as the claim states it, does not hold: the node of instance 0 of \<open>att\<close> exists
  and the lowest free instance is 1, yet an advertise with a null instance returns the
  handle of the instance-0 node and creates no node for instance 1.
\<close>

theorem advertise_null_instance_counterexample:
  "nodes (dev advertised_world) (node_path ''att'' 0) \<noteq> None
   \<and> first_free (nodes (dev advertised_world)) ''att'' [0 ..< MAX_INSTANCES] = Some 1
   \<and> (case orb_advertise_multi spec_ops remote_manager (Some att) (Some [3, 4]) None 75 1
             advertised_world of
         Inl f \<Rightarrow> False
       | Inr ((handle, instance), w') \<Rightarrow>
           handle = DeviceNodePtr (node_path ''att'' 0) \<and> instance = None
           \<and> nodes (dev w') (node_path ''att'' 1) = None)"
proof -
  have n: "nodes (dev advertised_world) (node_path (o_name att) 0) = Some att_node"
    by (simp add: advertised_world_def path_att)
  have f: "first_free (nodes (dev advertised_world)) ''att'' [0 ..< MAX_INSTANCES] = Some 1"
    by (simp add: MAX_INSTANCES_def upt_conv_Cons advertised_world_def node_path_def decimal_def)
  have p: "node_path ''att'' 1 = ''/obj/att1''" "node_path ''att'' 0 = ''/obj/att''"
    by (simp_all add: node_path_def decimal_def)
  have "case orb_advertise_multi spec_ops remote_manager (Some att) (Some [3, 4]) None 75 1
             advertised_world of
         Inl f \<Rightarrow> False
       | Inr ((handle, instance), w') \<Rightarrow>
           handle = DeviceNodePtr (node_path ''att'' 0) \<and> instance = None
           \<and> nodes (dev w') (node_path ''att'' 1) = None"
    unfolding orb_advertise_multi_def no_rules_check advertise_existing [OF n path_att(2,3)]
    by (simp add: path_att(1) p advertised_world_def)
  with n f show ?thesis
    by (simp add: att_def)
qed

text \<open>
  C5, amended. For every advertise call with a null instance argument on a topic whose
  instance-0 node already exists (and that the publisher rules do not deny),
  \<open>node_open\<close> opens that existing node for writing and allocates nothing: the
  advertise returns the handle of the instance-0 node, the instance argument stays null
  and the set of nodes is the same as before.
\<close>

theorem advertise_null_instance_reuses_node:
  assumes "nodes (dev w) (node_path (o_name m) 0) = Some n"
    and "length (node_path (o_name m) 0) \<le> MAX_PATH"
    and "node_path (o_name m) 0 \<noteq> master_path"
    and "publisher_rule_check mgr (task_name (dev w)) (Some m) = Inr False"
  shows "node_open spec_ops (Some m) (Some d) True None priority w
           = ((int (next_fd (dev w)), None),
              snd (install_file (PublisherFile (node_path (o_name m) 0)) w))
       \<and> (case orb_advertise_multi spec_ops mgr (Some m) (Some d) None priority queue_size w of
             Inl f \<Rightarrow> False
           | Inr ((handle, instance), w') \<Rightarrow>
               handle = DeviceNodePtr (node_path (o_name m) 0) \<and> instance = None
               \<and> dom (nodes (dev w')) = dom (nodes (dev w)))"
proof -
  have "px4_get_taskname spec_ops w = task_name (dev w)"
    by (simp add: spec_ops_def)
  with assms(4)
  have "orb_advertise_multi spec_ops mgr (Some m) (Some d) None priority queue_size w
          = advertise_node spec_ops mgr (Some m) (Some d) None priority queue_size w"
    by (simp add: orb_advertise_multi_def)
  moreover have "node_path (o_name m) 0 \<in> dom (nodes (dev w))"
    using assms(1) by auto
  ultimately show ?thesis
    using node_open_existing [OF assms(1-3)] advertise_existing [OF assms(1-3)]
    by (simp add: insert_absorb)
qed

theorem advertise_null_instance_reuses_node_witness:
  "nodes (dev advertised_world) (node_path (o_name att) 0) = Some att_node
   \<and> length (node_path (o_name att) 0) \<le> MAX_PATH
   \<and> node_path (o_name att) 0 \<noteq> master_path
   \<and> publisher_rule_check remote_manager (task_name (dev advertised_world)) (Some att) = Inr False
   \<and> (case orb_advertise_multi spec_ops remote_manager (Some att) (Some [3, 4]) None 75 1
             advertised_world of
         Inl f \<Rightarrow> False
       | Inr ((handle, instance), w') \<Rightarrow>
           handle = DeviceNodePtr (node_path (o_name att) 0) \<and> instance = None
           \<and> dom (nodes (dev w')) = dom (nodes (dev advertised_world)))"
proof -
  have n: "nodes (dev advertised_world) (node_path (o_name att) 0) = Some att_node"
    by (simp add: advertised_world_def path_att)
  from advertise_null_instance_reuses_node [OF n path_att(2,3) no_rules_check, THEN conjunct2]
    n path_att(2,3) no_rules_check
  show ?thesis by blast
qed

subsection \<open>Caller misuse\<close>

text \<open>
  C6, as the claim states it, does not hold: a subscribe with a null descriptor fails
  with errno \<open>ENOENT\<close>, not with \<open>EINVAL\<close> (the \<open>INVALID_ARG\<close> code).
\<close>

theorem null_descriptor_counterexample:
  "orb_subscribe spec_ops None (boot ''logger'') = (-1, (boot ''logger'')\<lparr>errno := ENOENT\<rparr>)
   \<and> ENOENT \<noteq> EINVAL"
  by (simp add: orb_subscribe_def node_open_def errno_defs)

text \<open>
  C6, amended. For every subscribe call with a null descriptor (and every \<open>node_open\<close>
  with one) the operation fails with the error code \<open>ENOENT\<close> and returns -1, no
  handle. For every advertise call with a descriptor that the publisher rules do not
  deny and with a null initial payload, the operation fails with \<open>EINVAL\<close>
  (\<open>INVALID_ARG\<close>) and returns the null handle; the instance argument is untouched.
\<close>

theorem caller_misuse_errors:
  assumes "publisher_rule_check mgr (px4_get_taskname ops w) (Some m) = Inr False"
  shows "orb_subscribe ops None w = (-1, w\<lparr>errno := ENOENT\<rparr>)
       \<and> orb_subscribe_multi ops None i w = (-1, w\<lparr>errno := ENOENT\<rparr>)
       \<and> node_open ops None data advertiser instance priority w
           = ((-1, instance), w\<lparr>errno := ENOENT\<rparr>)
       \<and> node_open ops (Some m) None True instance priority w
           = ((-1, instance), w\<lparr>errno := EINVAL\<rparr>)
       \<and> orb_advertise_multi ops mgr (Some m) None instance priority queue_size w
           = Inr ((nullptr, instance), w\<lparr>errno := EINVAL\<rparr>)"
  using assms
  by (simp add: orb_subscribe_def orb_subscribe_multi_def node_open_def orb_advertise_multi_def
      advertise_node_def)

theorem caller_misuse_errors_witness:
  "publisher_rule_check rules_manager (px4_get_taskname spec_ops (boot ''estimator'')) (Some att)
     = Inr False
   \<and> orb_subscribe spec_ops None (boot ''estimator'')
       = (-1, (boot ''estimator'')\<lparr>errno := ENOENT\<rparr>)
   \<and> orb_advertise_multi spec_ops rules_manager (Some att) None None 75 1 (boot ''estimator'')
       = Inr ((nullptr, None), (boot ''estimator'')\<lparr>errno := EINVAL\<rparr>)"
proof -
  have a: "publisher_rule_check rules_manager (px4_get_taskname spec_ops (boot ''estimator''))
             (Some att) = Inr False"
    by (simp add: publisher_rule_check_def rules_manager_def spec_ops_def boot_def att_def
        findTopic_def)
  from caller_misuse_errors [OF a] a show ?thesis by simp
qed

subsection \<open>Advertising again with a larger queue\<close>

text \<open>
  C7, as the claim states it, does not hold: advertising the already advertised node of
  \<open>att\<close> (queue size 1) again with queue size 4 returns the node's handle, not an
  error.
\<close>

theorem readvertise_larger_queue_counterexample:
  "nodes (dev advertised_world) ''/obj/att'' = Some att_node
   \<and> n_advertised att_node \<and> n_queue_size att_node = 1
   \<and> (case orb_advertise_multi spec_ops remote_manager (Some att) (Some [3, 4]) None 75 4
             advertised_world of
         Inl f \<Rightarrow> False
       | Inr ((handle, instance), w') \<Rightarrow> handle = DeviceNodePtr ''/obj/att'')
   \<and> DeviceNodePtr ''/obj/att'' \<noteq> nullptr"
proof -
  have n: "nodes (dev advertised_world) (node_path (o_name att) 0) = Some att_node"
    by (simp add: advertised_world_def path_att)
  have "case orb_advertise_multi spec_ops remote_manager (Some att) (Some [3, 4]) None 75 4
             advertised_world of
         Inl f \<Rightarrow> False
       | Inr ((handle, instance), w') \<Rightarrow> handle = DeviceNodePtr ''/obj/att''"
    unfolding orb_advertise_multi_def no_rules_check advertise_existing [OF n path_att(2,3)]
    by (simp add: path_att(1))
  with n show ?thesis
    by (simp add: path_att(1) att_node_def)
qed

text \<open>
  C7, amended. For every advertise (with a null instance, not denied by the publisher
  rules) of a node whose queue is already installed and that asks for a larger queue
  size, the request to set the queue size fails inside the manager, and this is not
  reported to the caller: the call returns the node's publisher handle. The node keeps
  its queue size and remains usable: the initial payload is published on it (the
  generation grows by one) and later publishes through the handle succeed.
\<close>

theorem readvertise_larger_queue:
  assumes "nodes (dev w) (node_path (o_name m) 0) = Some n"
    and "length (node_path (o_name m) 0) \<le> MAX_PATH"
    and "node_path (o_name m) 0 \<noteq> master_path"
    and "publisher_rule_check mgr (task_name (dev w)) (Some m) = Inr False"
    and "n_ring n \<noteq> []"
    and "n_queue_size n < unat queue_size"
  shows "fst (fst (sys_ioctl spec_ops (int (next_fd (dev w))) ORBIOCSETQUEUESIZE
                (ArgValue (unat queue_size))
                (snd (node_open spec_ops (Some m) (Some d) True None priority w)))) = -1
       \<and> (case orb_advertise_multi spec_ops mgr (Some m) (Some d) None priority queue_size w of
             Inl f \<Rightarrow> False
           | Inr ((handle, instance), w') \<Rightarrow>
               handle = DeviceNodePtr (node_path (o_name m) 0) \<and> handle \<noteq> nullptr
               \<and> (case nodes (dev w') (node_path (o_name m) 0) of
                     None \<Rightarrow> False
                   | Some n' \<Rightarrow>
                       n_queue_size n' = n_queue_size n \<and> n_ring n' \<noteq> []
                       \<and> n_generation n' = n_generation n + 1 \<and> n_advertised n')
               \<and> fst (orb_publish spec_ops mgr (Some m) handle (Some d') w') = OK)"
proof -
  have q: "set_queue_size (unat queue_size) n = None"
    using assms(5,6) by (simp add: set_queue_size_def)
  have "px4_get_taskname spec_ops w = task_name (dev w)"
    by (simp add: spec_ops_def)
  with assms(4)
  have a: "orb_advertise_multi spec_ops mgr (Some m) (Some d) None priority queue_size w
          = advertise_node spec_ops mgr (Some m) (Some d) None priority queue_size w"
    by (simp add: orb_advertise_multi_def)
  have i: "fst (fst (sys_ioctl spec_ops (int (next_fd (dev w))) ORBIOCSETQUEUESIZE
                (ArgValue (unat queue_size))
                (snd (node_open spec_ops (Some m) (Some d) True None priority w)))) = -1"
    unfolding node_open_existing [OF assms(1-3)]
    using assms(1) q
    by (simp add: spec_ops_def install_file_def Let_def spec_ioctl_def node_ioctl_def)
  have p: "case advertise_node spec_ops mgr (Some m) (Some d) None priority queue_size w of
             Inl f \<Rightarrow> False
           | Inr ((handle, instance), w') \<Rightarrow>
               handle = DeviceNodePtr (node_path (o_name m) 0) \<and> handle \<noteq> nullptr
               \<and> (case nodes (dev w') (node_path (o_name m) 0) of
                     None \<Rightarrow> False
                   | Some n' \<Rightarrow>
                       n_queue_size n' = n_queue_size n \<and> n_ring n' \<noteq> []
                       \<and> n_generation n' = n_generation n + 1 \<and> n_advertised n')
               \<and> fst (orb_publish spec_ops mgr (Some m) handle (Some d') w') = OK"
    unfolding advertise_existing [OF assms(1-3)]
    using assms(5)
    by (simp add: q node_write_def orb_publish_def spec_ops_def spec_publish_def put_node_def)
  from i p a show ?thesis by simp
qed

theorem readvertise_larger_queue_witness:
  "nodes (dev advertised_world) (node_path (o_name att) 0) = Some att_node
   \<and> length (node_path (o_name att) 0) \<le> MAX_PATH
   \<and> node_path (o_name att) 0 \<noteq> master_path
   \<and> publisher_rule_check remote_manager (task_name (dev advertised_world)) (Some att) = Inr False
   \<and> n_ring att_node \<noteq> []
   \<and> n_queue_size att_node < unat (4 :: 32 word)
   \<and> (case orb_advertise_multi spec_ops remote_manager (Some att) (Some [3, 4]) None 75 4
             advertised_world of
         Inl f \<Rightarrow> False
       | Inr ((handle, instance), w') \<Rightarrow>
           handle = DeviceNodePtr (node_path (o_name att) 0)
           \<and> (case nodes (dev w') (node_path (o_name att) 0) of
                 None \<Rightarrow> False
               | Some n' \<Rightarrow> n_queue_size n' = n_queue_size att_node))"
proof -
  have n: "nodes (dev advertised_world) (node_path (o_name att) 0) = Some att_node"
    by (simp add: advertised_world_def path_att)
  have r: "n_ring att_node \<noteq> []" and q: "n_queue_size att_node < unat (4 :: 32 word)"
    by (simp_all add: att_node_def)
  from readvertise_larger_queue [OF n path_att(2,3) no_rules_check r q, of "[3, 4]" 75 "[]",
         THEN conjunct2]
  have "case orb_advertise_multi spec_ops remote_manager (Some att) (Some [3, 4]) None 75 4
             advertised_world of
         Inl f \<Rightarrow> False
       | Inr ((handle, instance), w') \<Rightarrow>
           handle = DeviceNodePtr (node_path (o_name att) 0)
           \<and> (case nodes (dev w') (node_path (o_name att) 0) of
                 None \<Rightarrow> False
               | Some n' \<Rightarrow> n_queue_size n' = n_queue_size att_node)"
    by (auto split: sum.splits option.splits)
  with n path_att(2,3) no_rules_check r q show ?thesis by blast
qed

subsection \<open>Copy\<close>

text \<open>
  C8, as the claim states it, does not hold: on a device whose first read is short and
  whose second read would deliver the whole payload, \<open>orb_copy\<close> fails after that one
  read; and when the read itself fails (here on a descriptor that is not open),
  \<open>orb_copy\<close> fails with the errno the device left, which is not \<open>EIO\<close>.
\<close>

theorem orb_copy_retry_counterexample:
  "fst (fst (orb_copy flaky_ops att 4 [] \<lparr>errno = 0, dev = 0\<rparr>)) = -1
   \<and> dev (snd (orb_copy flaky_ops att 4 [] \<lparr>errno = 0, dev = 0\<rparr>)) = 1
   \<and> fst (sys_read flaky_ops 4 [] (unat (o_size att))
             (snd (orb_copy flaky_ops att 4 [] \<lparr>errno = 0, dev = 0\<rparr>))) = (2, [0, 0])
   \<and> fst (fst (orb_copy spec_ops att 9 [] (boot ''logger''))) = -1
   \<and> errno (snd (orb_copy spec_ops att 9 [] (boot ''logger''))) = EBADF
   \<and> EBADF \<noteq> EIO"
proof -
  have u: "unat (o_size att) = 2" and v: "uint (o_size att) = 2"
    by (simp_all add: att_def)
  have r: "replicate 2 (0 :: 8 word) = [0, 0]"
    by (simp add: numeral_2_eq_2)
  show ?thesis
    by (simp add: orb_copy_def flaky_ops_def flaky_read_def u v r spec_ops_def spec_read_def
        boot_def errno_defs)
qed

text \<open>
  C8, amended. \<open>orb_copy\<close> reads the device exactly once and never retries: the device
  is left in the state that one read produced. The copy succeeds exactly when that read
  returned the payload size. When the read returned another count that is not negative,
  the copy fails with -1 and errno \<open>EIO\<close>; when the read failed (a negative result),
  the copy fails with -1 and leaves errno as the device set it.
\<close>

theorem orb_copy_single_read:
  assumes "sys_read ops handle buffer (unat (o_size meta)) w = ((ret, buffer'), w1)"
  shows "dev (snd (orb_copy ops meta handle buffer w)) = dev w1
       \<and> (fst (fst (orb_copy ops meta handle buffer w)) = OK \<longleftrightarrow> ret = uint (o_size meta))
       \<and> (ret \<noteq> uint (o_size meta) \<longrightarrow> fst (fst (orb_copy ops meta handle buffer w)) = -1)
       \<and> (0 \<le> ret \<and> ret \<noteq> uint (o_size meta) \<longrightarrow>
            errno (snd (orb_copy ops meta handle buffer w)) = EIO)
       \<and> (ret < 0 \<longrightarrow> snd (orb_copy ops meta handle buffer w) = w1)"
  using assms by (auto simp: orb_copy_def)

theorem orb_copy_single_read_witness:
  "sys_read flaky_ops 4 [] (unat (o_size att)) \<lparr>errno = 0, dev = 0\<rparr>
     = ((1, []), \<lparr>errno = 0, dev = 1\<rparr>)
   \<and> dev (snd (orb_copy flaky_ops att 4 [] \<lparr>errno = 0, dev = 0\<rparr>)) = 1
   \<and> fst (fst (orb_copy flaky_ops att 4 [] \<lparr>errno = 0, dev = 0\<rparr>)) = -1
   \<and> errno (snd (orb_copy flaky_ops att 4 [] \<lparr>errno = 0, dev = 0\<rparr>)) = EIO"
proof -
  have r: "sys_read flaky_ops 4 [] (unat (o_size att)) \<lparr>errno = 0, dev = 0\<rparr>
             = ((1, []), \<lparr>errno = 0, dev = 1\<rparr>)"
    by (simp add: flaky_ops_def flaky_read_def att_def)
  have s: "uint (o_size att) = 2" by (simp add: att_def)
  from orb_copy_single_read [OF r] r s show ?thesis by simp
qed

subsection \<open>Whitespace in the rules file\<close>

lemma strTrim_blanks: "\<forall>c \<in> set ws. blank c \<Longrightarrow> strTrim (ws @ v) = strTrim v"
  by (induction ws) (auto simp: blank_def)

lemma strTrim_stops: "\<not> blank c \<Longrightarrow> strTrim (u @ c # r) = strTrim u @ c # r"
  by (induction u) (auto simp: blank_def)

lemma strTrim_last:
  "x \<noteq> [] \<Longrightarrow> \<not> blank (last x) \<Longrightarrow> strTrim x \<noteq> [] \<and> last (strTrim x) = last x"
  by (induction x) (auto simp: blank_def split: if_splits)

lemma cstr_stops: "cstr (u @ NUL # r) = cstr u"
  by (induction u) (auto simp: cstr_def)

lemma mark_topics_len_pos:
  "0 < k \<Longrightarrow> 0 < k' \<Longrightarrow> mark_topics cs k n = mark_topics cs k' n"
proof (induction cs arbitrary: k k' n)
  case Nil
  show ?case by simp
next
  case (Cons c cs)
  have "mark_topics cs (k + 1) n = mark_topics cs (k' + 1) n"
    by (rule Cons.IH) simp_all
  with Cons.prems show ?case by simp
qed

lemma mark_topics_blanks:
  assumes "\<forall>c \<in> set ws. blank c" and "y = [] \<or> \<not> separator (hd y)"
  shows "mark_topics (ws @ y) 0 n = (ws @ fst (mark_topics y 0 n), snd (mark_topics y 0 n))"
proof -
  have a: "mark_topics (ws @ y) k n
             = (ws @ fst (mark_topics y (k + length ws) n), snd (mark_topics y (k + length ws) n))"
    for k
    using assms(1)
    by (induction ws arbitrary: k)
       (auto simp: blank_def tab_def newline_def split: prod.splits)
  have b: "mark_topics y k n = mark_topics y 0 n" for k
  proof (cases y)
    case Nil
    then show ?thesis by simp
  next
    case (Cons c cs)
    with assms(2) have "\<not> separator c" by simp
    then show ?thesis
      using Cons mark_topics_len_pos [of "k + 1" 1 cs n]
      by (simp add: separator_def split: prod.splits)
  qed
  show ?thesis using a [of 0] b [of "length ws"] by simp
qed

lemma mark_topics_Cons:
  "mark_topics (c # cs) t n =
     (let t' = (if separator c then 0 else t + 1);
          n' = (if separator c \<and> 0 < t then n + 1 else n);
          c' = (if separator c \<and> 0 < t then NUL else c)
      in (c' # fst (mark_topics cs t' n'), snd (mark_topics cs t' n')))"
  by (simp add: separator_def split: prod.splits)

lemma mark_topics_comma:
  assumes "a \<noteq> []" and "\<not> separator (last a)"
  shows "mark_topics (a @ CHR '','' # r) t n
           = (fst (mark_topics a t n) @ NUL #
                fst (mark_topics r 0 (Suc (snd (mark_topics a t n)))),
              snd (mark_topics r 0 (Suc (snd (mark_topics a t n)))))"
  using assms
proof (induction a arbitrary: t n)
  case Nil
  then show ?case by simp
next
  case (Cons c a)
  show ?case
  proof (cases "a = []")
    case True
    with Cons.prems have "\<not> separator c" by simp
    moreover have "separator (CHR '','')" by (simp add: separator_def)
    ultimately show ?thesis
      using True by (simp add: mark_topics_Cons del: mark_topics.simps(2))
  next
    case False
    with Cons.prems have l: "\<not> separator (last a)" by simp
    show ?thesis
      by (simp add: mark_topics_Cons [of c] Let_def Cons.IH [OF False l]
               del: mark_topics.simps(2))
  qed
qed

lemma collect_topics_blanks:
  assumes "\<forall>c \<in> set ws. blank c"
  shows "collect_topics (ma @ NUL # ws @ my) topic num acc
           = collect_topics (ma @ NUL # my) topic num acc"
proof (induction "length ma" arbitrary: ma topic acc rule: less_induct)
  case less
  show ?case
  proof (cases "topic < num")
    case False
    then show ?thesis by (subst (1 2) collect_topics.simps) simp
  next
    case True
    show ?thesis
    proof (cases ma)
      case Nil
      then show ?thesis
        using True strTrim_blanks [OF assms, of my]
        by (subst (1 2) collect_topics.simps) simp
    next
      case (Cons c cs)
      show ?thesis
      proof (cases "c = NUL")
        case n: True
        have nb: "\<not> blank NUL" by (simp add: blank_def NUL_def tab_def)
        have len: "length (strTrim cs) < length ma"
          using Cons length_strTrim_le [of cs] by simp
        show ?thesis
          using True Cons n less [OF len]
          by (subst (1 2) collect_topics.simps)
             (simp add: strTrim_stops [OF nb] cstr_stops)
      next
        case n: False
        have len: "length cs < length ma" using Cons by simp
        show ?thesis
          using True Cons n less [OF len]
          by (subst (1 2) collect_topics.simps) simp
      qed
    qed
  qed
qed

lemma read_topics_after_comma:
  assumes "a \<noteq> []" and "\<not> separator (last a)"
    and "\<forall>c \<in> set ws. blank c" and "y = [] \<or> \<not> separator (hd y)"
  shows "read_topics (a @ CHR '','' # ws @ y) rule = read_topics (a @ CHR '','' # y) rule"
proof -
  have nb: "\<not> blank NUL" by (simp add: blank_def NUL_def tab_def)
  show ?thesis
    by (simp add: read_topics_def mark_topics_comma [OF assms(1,2)]
        mark_topics_blanks [OF assms(3,4)] strTrim_stops [OF nb] cstr_stops
        collect_topics_blanks [OF assms(3)])
qed


lemma startsWith_same: "startsWith pre (pre @ r)"
  by (simp add: startsWith_def)

lemma not_startsWith:
  "pre \<noteq> [] \<Longrightarrow> hd pre \<noteq> c \<Longrightarrow> \<not> startsWith pre (c # r)"
  by (cases pre) (auto simp: startsWith_def Let_def)

lemma rules_line_module:
  "rules_line (module_str @ r) rule
     = Inr (OK, read_module_name (strTrim r) rule)"
proof -
  have a: "\<not> startsWith restrict_topics_str (module_str @ r)"
    unfolding module_str_def by (simp add: not_startsWith restrict_topics_str_def)
  have b: "\<not> length (module_str @ r) < 2" "hd (module_str @ r) \<noteq> CHR ''#''"
    by (simp_all add: module_str_def)
  show ?thesis
    unfolding rules_line_def using a b by (simp add: startsWith_same)
qed

lemma rules_line_restrict:
  "rules_line (restrict_topics_str @ r) rule
     = (case read_topics (strTrim r) rule of Inl f \<Rightarrow> Inl f | Inr rule' \<Rightarrow> Inr (OK, rule'))"
proof -
  have b: "\<not> length (restrict_topics_str @ r) < 2"
    "hd (restrict_topics_str @ r) \<noteq> CHR ''#''"
    by (simp_all add: restrict_topics_str_def)
  show ?thesis
    unfolding rules_line_def using b by (simp add: startsWith_same)
qed

lemma rules_line_ignore:
  "rules_line (ignore_others @ r) rule
     = (if startsWith ''true'' (strTrim r)
        then Inr (OK, rule\<lparr>ignore_other_topics := True\<rparr>) else Inr (OK, rule))"
proof -
  have a: "\<not> startsWith restrict_topics_str (ignore_others @ r)"
    "\<not> startsWith module_str (ignore_others @ r)"
    unfolding ignore_others_def
    by (simp_all add: not_startsWith restrict_topics_str_def module_str_def)
  have b: "\<not> length (ignore_others @ r) < 2" "hd (ignore_others @ r) \<noteq> CHR ''#''"
    by (simp_all add: ignore_others_def)
  show ?thesis
    unfolding rules_line_def using a b by (simp add: startsWith_same)
qed

lemma rules_line_key_blanks:
  assumes "\<forall>c \<in> set ws. blank c"
    and "key \<in> {module_str, restrict_topics_str, ignore_others}"
  shows "rules_line (key @ ws @ v) rule = rules_line (key @ v) rule"
proof -
  from assms(2) consider "key = module_str" | "key = restrict_topics_str"
    | "key = ignore_others" by blast
  then show ?thesis
  proof cases
    case 1
    then show ?thesis by (simp add: rules_line_module strTrim_blanks [OF assms(1)])
  next
    case 2
    then show ?thesis by (simp add: rules_line_restrict strTrim_blanks [OF assms(1)])
  next
    case 3
    then show ?thesis by (simp add: rules_line_ignore strTrim_blanks [OF assms(1)])
  qed
qed

lemma cstr_no_NUL: "NUL \<notin> set a \<Longrightarrow> cstr (a @ b) = a @ cstr b"
  by (induction a) (auto simp: cstr_def)

lemma not_blank: "\<not> blank NUL" "\<not> blank newline" "\<not> blank (CHR '','')"
  by (simp_all add: blank_def NUL_def newline_def tab_def)

lemma blanks_without: "\<forall>c \<in> set ws. blank c \<Longrightarrow> \<not> blank d \<Longrightarrow> d \<notin> set ws"
  by blast

lemma strTrim_suffix: "\<exists>b. cs = b @ strTrim cs"
proof (induction cs)
  case Nil
  show ?case by simp
next
  case (Cons c cs)
  then obtain b where b: "cs = b @ strTrim cs" by blast
  show ?case
  proof (cases "c = CHR '' '' \<or> c = tab")
    case True
    then have "c # cs = (c # b) @ strTrim (c # cs)" using b by simp
    then show ?thesis by blast
  next
    case False
    then have "c # cs = [] @ strTrim (c # cs)" by simp
    then show ?thesis by blast
  qed
qed

lemma set_strTrim: "set (strTrim cs) \<subseteq> set cs"
proof -
  obtain b where "cs = b @ strTrim cs" using strTrim_suffix by blast
  then have "set cs = set b \<union> set (strTrim cs)" by (metis set_append)
  then show ?thesis by blast
qed

lemma strTrim_idem: "strTrim (strTrim cs) = strTrim cs"
  by (induction cs) simp_all

lemma strTrim_append: "strTrim t \<noteq> [] \<Longrightarrow> strTrim (t @ r) = strTrim t @ r"
  by (induction t) (auto split: if_splits)

lemma strTrim_last_kept: "strTrim x \<noteq> [] \<Longrightarrow> last (strTrim x) = last x"
  by (induction x) (auto split: if_splits)

lemma mark_topics_plain:
  "\<forall>c \<in> set a. \<not> separator c \<Longrightarrow>
     mark_topics (a @ r) t n = (a @ fst (mark_topics r (t + length a) n),
                                snd (mark_topics r (t + length a) n))"
proof (induction a arbitrary: t)
  case Nil
  show ?case by simp
next
  case (Cons c a)
  then have c: "\<not> separator c" and a: "\<forall>c \<in> set a. \<not> separator c" by simp_all
  show ?case
    using c by (simp add: mark_topics_Cons Cons.IH [OF a] del: mark_topics.simps(2))
qed

lemma mark_topics_token:
  assumes "a \<noteq> []" and "\<forall>c \<in> set a. \<not> separator c" and "separator s"
  shows "mark_topics (a @ s # r) 0 n
           = (a @ NUL # fst (mark_topics r 0 (Suc n)), snd (mark_topics r 0 (Suc n)))"
proof -
  have "0 < length a" using assms(1) by simp
  then show ?thesis
    using assms(3)
    by (simp add: mark_topics_plain [OF assms(2)] mark_topics_Cons del: mark_topics.simps(2))
qed

lemma topic_text_no_separator: "topic_text t \<Longrightarrow> \<forall>c \<in> set t. \<not> separator c"
  unfolding topic_text_def separator_def by blast

lemma mark_topics_joined:
  "\<forall>t \<in> set ts. topic_text t \<Longrightarrow>
     mark_topics (joined ts) 0 n = (concat (map (\<lambda>t. t @ [NUL]) ts), n + length ts)"
proof (induction ts arbitrary: n rule: joined.induct)
  case 1
  show ?case by simp
next
  case (2 t)
  then have tt: "topic_text t" by simp
  then have t: "t \<noteq> []" "\<forall>c \<in> set t. \<not> separator c"
    using topic_text_no_separator [OF tt] by (simp_all add: topic_text_def)
  have s: "separator newline" by (simp add: separator_def)
  show ?case
    using mark_topics_token [OF t s, of "[]" n] by simp
next
  case (3 t t' ts)
  then have tt: "topic_text t" by simp
  then have t: "t \<noteq> []" "\<forall>c \<in> set t. \<not> separator c"
    using topic_text_no_separator [OF tt] by (simp_all add: topic_text_def)
  have s: "separator (CHR '','')" by (simp add: separator_def)
  have r: "\<forall>t \<in> set (t' # ts). topic_text t" using "3.prems" by simp
  show ?case
    using mark_topics_token [OF t s, of "joined (t' # ts)" n] "3.IH" [OF r, of "Suc n"]
    by simp
qed

lemma collect_topics_skip:
  "NUL \<notin> set u \<Longrightarrow> topic < num \<Longrightarrow>
     collect_topics (u @ NUL # r) topic num acc
       = collect_topics (strTrim r) (topic + 1) num (acc @ [cstr (strTrim r)])"
proof (induction u)
  case Nil
  then show ?case by (subst collect_topics.simps) (simp add: Let_def)
next
  case (Cons c u)
  then have "c \<noteq> NUL" and "NUL \<notin> set u" by auto
  with Cons show ?case
    by (subst collect_topics.simps) simp
qed

lemma collect_topics_tokens:
  "NUL \<notin> set u \<Longrightarrow> \<forall>t \<in> set ts. NUL \<notin> set t \<Longrightarrow>
     collect_topics (u @ NUL # concat (map (\<lambda>t. t @ [NUL]) ts)) topic (topic + length ts) acc
       = Inr (acc @ map strTrim ts)"
proof (induction ts arbitrary: u topic acc)
  case Nil
  show ?case by (subst collect_topics.simps) simp
next
  case (Cons t ts)
  have nb: "\<not> blank NUL" by (rule not_blank(1))
  have nt: "NUL \<notin> set t" and nts: "\<forall>t \<in> set ts. NUL \<notin> set t"
    using Cons.prems(2) by simp_all
  have ns: "NUL \<notin> set (strTrim t)" using nt set_strTrim [of t] by blast
  have lt: "topic < topic + length (t # ts)" by simp
  let ?R = "concat (map (\<lambda>t. t @ [NUL]) ts)"
  have "collect_topics (u @ NUL # concat (map (\<lambda>t. t @ [NUL]) (t # ts))) topic
          (topic + length (t # ts)) acc
        = collect_topics (strTrim t @ NUL # ?R) (topic + 1) (topic + length (t # ts))
            (acc @ [cstr (strTrim t @ NUL # ?R)])"
    using collect_topics_skip [OF Cons.prems(1) lt, of "t @ NUL # ?R" acc]
    by (simp add: strTrim_stops [OF nb])
  also have "cstr (strTrim t @ NUL # ?R) = strTrim t"
    using cstr_no_NUL [OF ns, of "NUL # ?R"] by (simp add: cstr_def)
  also have "collect_topics (strTrim t @ NUL # ?R) (topic + 1) (topic + length (t # ts))
               (acc @ [strTrim t])
             = Inr ((acc @ [strTrim t]) @ map strTrim ts)"
    using Cons.IH [OF ns nts, of "topic + 1" "acc @ [strTrim t]"] by simp
  finally show ?case by simp
qed

lemma rules_line_comma_blanks:
  assumes "\<forall>c \<in> set ws. blank c"
    and "strTrim x \<noteq> []" and "\<not> separator (last x)"
    and "y = [] \<or> \<not> separator (hd y)"
  shows "rules_line (restrict_topics_str @ x @ CHR '','' # ws @ y) rule
           = rules_line (restrict_topics_str @ x @ CHR '','' # y) rule"
proof -
  have nb: "\<not> blank (CHR '','')" by (simp add: blank_def tab_def)
  from strTrim_last_kept [OF assms(2)] assms(3)
  have a: "\<not> separator (last (strTrim x))" by simp
  show ?thesis
    by (simp add: rules_line_restrict strTrim_stops [OF nb]
        read_topics_after_comma [OF assms(2) a assms(1,4)])
qed

lemma take_line_prefix:
  "pre \<noteq> [] \<Longrightarrow> last pre = newline
     \<Longrightarrow> take_line k (pre @ X) = (fst (take_line k pre), snd (take_line k pre) @ X)"
proof (induction k pre rule: take_line.induct)
  case (1 cs)
  show ?case by simp
next
  case (2 k)
  then show ?case by simp
next
  case (3 k c cs)
  show ?case
  proof (cases "c = newline")
    case True
    then show ?thesis by simp
  next
    case False
    with "3.prems" have "cs \<noteq> []" "last cs = newline" by (auto split: if_splits)
    with "3.IH" [OF False] False show ?thesis
      by (simp split: prod.splits)
  qed
qed

lemma take_line_rest:
  "pre = [] \<or> last pre = newline
     \<Longrightarrow> snd (take_line k pre) = [] \<or> last (snd (take_line k pre)) = newline"
proof (induction k pre rule: take_line.induct)
  case (3 k c cs)
  show ?case
  proof (cases "c = newline")
    case True
    with "3.prems" show ?thesis by (auto split: if_splits)
  next
    case False
    with "3.prems" have "cs = [] \<or> last cs = newline" by (auto split: if_splits)
    with "3.IH" [OF False] False show ?thesis
      by (auto split: prod.splits)
  qed
qed simp_all

lemma take_line_whole:
  "newline \<notin> set body \<Longrightarrow> length body < k
     \<Longrightarrow> take_line k (body @ newline # post) = (body @ [newline], post)"
proof (induction body arbitrary: k)
  case Nil
  then show ?case by (cases k) simp_all
next
  case (Cons c body)
  then obtain k' where k: "k = Suc k'" by (cases k) simp_all
  with Cons.prems have "take_line k' (body @ newline # post) = (body @ [newline], post)"
    by (intro Cons.IH) simp_all
  with Cons.prems k show ?case by auto
qed

lemma fgets_whole:
  assumes "newline \<notin> set body" and "length body < line_len - 1"
  shows "fgets line_len (body @ newline # post) = Some (body @ [newline], post)"
  using take_line_whole [OF assms] by (simp add: fgets_def)

lemma rules_loop_same_line:
  assumes eq: "\<And>r. rules_line (cstr l1) r = rules_line (cstr l2) r"
    and f1: "fgets line_len (l1 @ post) = Some (l1, post)"
    and f2: "fgets line_len (l2 @ post) = Some (l2, post)"
  shows "pre = [] \<or> last pre = newline
           \<Longrightarrow> rules_loop (pre @ l1 @ post) ret rule = rules_loop (pre @ l2 @ post) ret rule"
proof (induction "length pre" arbitrary: pre ret rule rule: less_induct)
  case less
  show ?case
  proof (cases "pre = []")
    case True
    then show ?thesis
      using f1 f2 eq
      by (subst (1 2) rules_loop.simps) (simp split: sum.splits)
  next
    case False
    with less.prems have l: "last pre = newline" by simp
    define line where "line = fst (take_line (line_len - 1) pre)"
    define rest where "rest = snd (take_line (line_len - 1) pre)"
    have t: "fgets line_len (pre @ X) = Some (line, rest @ X)" for X
      using False take_line_prefix [OF False l, of "line_len - 1" X]
      by (simp add: fgets_def line_def rest_def)
    have shorter: "length rest < length pre"
      unfolding rest_def using take_line_shorter [of "line_len - 1" pre] False
      by (simp add: line_len_def)
    have lines: "rest = [] \<or> last rest = newline"
      unfolding rest_def using take_line_rest less.prems by blast
    note ih = less.hyps [OF shorter lines]
    show ?thesis
      by (subst (1 2) rules_loop.simps) (simp add: t ih split: sum.splits)
  qed
qed

lemma keys_no_NUL:
  "key \<in> {module_str, restrict_topics_str, ignore_others} \<Longrightarrow> NUL \<notin> set key"
  by (auto simp: module_str_def restrict_topics_str_def ignore_others_def NUL_def)


lemma joined_Cons:
  "joined (t # ts) = t @ (if ts = [] then [newline] else CHR '','' # joined ts)"
  by (cases ts) simp_all

lemma joined_body:
  "ts \<noteq> [] \<Longrightarrow> \<forall>t \<in> set ts. topic_text t \<Longrightarrow>
     \<exists>body. joined ts = body @ [newline] \<and> newline \<notin> set body \<and> NUL \<notin> set body"
proof (induction ts rule: joined.induct)
  case 1
  then show ?case by simp
next
  case (2 t)
  then have "newline \<notin> set t" "NUL \<notin> set t" by (simp_all add: topic_text_def)
  then show ?case by simp
next
  case (3 t t' ts)
  then have t: "newline \<notin> set t" "NUL \<notin> set t" by (simp_all add: topic_text_def)
  from 3 obtain body where b: "joined (t' # ts) = body @ [newline]"
      "newline \<notin> set body" "NUL \<notin> set body"
    by auto
  have c: "CHR '','' \<noteq> newline" "CHR '','' \<noteq> NUL" by (simp_all add: newline_def NUL_def)
  have "joined (t # t' # ts) = (t @ CHR '','' # body) @ [newline]" using b(1) by simp
  moreover have "newline \<notin> set (t @ CHR '','' # body)" "NUL \<notin> set (t @ CHR '','' # body)"
    using t b(2,3) c by auto
  ultimately show ?case by blast
qed

lemma topic_text_strTrim: "topic_text t \<Longrightarrow> strTrim t \<noteq> [] \<Longrightarrow> topic_text (strTrim t)"
  using set_strTrim [of t] unfolding topic_text_def by blast

lemma read_topics_tokens:
  assumes "\<forall>t \<in> set (t1 # ts). topic_text t" and "strTrim t1 \<noteq> []"
    and "\<forall>c \<in> set ws. blank c"
  shows "read_topics (strTrim (ws @ joined (t1 # ts))) rule
           = Inr (rule\<lparr>topics := Some (map strTrim (t1 # ts))\<rparr>)"
proof -
  let ?a = "strTrim t1"
  let ?R = "concat (map (\<lambda>t. t @ [NUL]) ts)"
  have nb: "\<not> blank NUL" by (rule not_blank(1))
  have t1: "topic_text t1" and rest: "\<forall>t \<in> set ts. topic_text t"
    using assms(1) by simp_all
  have ta: "topic_text ?a" by (rule topic_text_strTrim [OF t1 assms(2)])
  have all: "\<forall>t \<in> set (?a # ts). topic_text t" using ta rest by simp
  have s: "strTrim (ws @ joined (t1 # ts)) = joined (?a # ts)"
    by (simp only: strTrim_blanks [OF assms(3)] joined_Cons [of t1]
        strTrim_append [OF assms(2)] joined_Cons [of ?a])
  have m: "mark_topics (joined (?a # ts)) 0 0 = (?a @ NUL # ?R, Suc (length ts))"
    using mark_topics_joined [OF all, of 0] by simp
  have na: "NUL \<notin> set ?a" using ta by (simp add: topic_text_def)
  have nts: "\<forall>t \<in> set ts. NUL \<notin> set t" using rest by (simp add: topic_text_def)
  have p: "strTrim (?a @ NUL # ?R) = ?a @ NUL # ?R"
    by (simp add: strTrim_stops [OF nb] strTrim_idem)
  have c: "cstr (?a @ NUL # ?R) = ?a" using cstr_no_NUL [OF na, of "NUL # ?R"]
    by (simp add: cstr_def)
  have w: "collect_topics (?a @ NUL # ?R) (Suc 0) (Suc (length ts)) [?a]
             = Inr (?a # map strTrim ts)"
    using collect_topics_tokens [OF na nts, of "Suc 0" "[?a]"] by simp
  show ?thesis
    unfolding read_topics_def s m by (simp add: p c w)
qed

lemma rules_loop_stopped: "ret \<noteq> OK \<Longrightarrow> rules_loop X ret rule = Inr (ret, rule)"
  by (subst rules_loop.simps) (simp split: option.splits)

lemma rules_loop_append:
  "pre = [] \<or> last pre = newline \<Longrightarrow>
     rules_loop (pre @ X) ret rule
       = (case rules_loop pre ret rule of
            Inl f \<Rightarrow> Inl f
          | Inr (ret', rule') \<Rightarrow> rules_loop X ret' rule')"
proof (induction "length pre" arbitrary: pre ret rule rule: less_induct)
  case less
  show ?case
  proof (cases "pre = []")
    case True
    have "rules_loop [] ret rule = Inr (ret, rule)"
      by (subst rules_loop.simps) (simp add: fgets_def)
    with True show ?thesis by simp
  next
    case False
    with less.prems have l: "last pre = newline" by simp
    define line where "line = fst (take_line (line_len - 1) pre)"
    define rest where "rest = snd (take_line (line_len - 1) pre)"
    have t: "fgets line_len (pre @ Y) = Some (line, rest @ Y)" for Y
      using False take_line_prefix [OF False l, of "line_len - 1" Y]
      by (simp add: fgets_def line_def rest_def)
    have t0: "fgets line_len pre = Some (line, rest)"
      using t [of "[]"] by simp
    have shorter: "length rest < length pre"
      unfolding rest_def using take_line_shorter [of "line_len - 1" pre] False
      by (simp add: line_len_def)
    have lines: "rest = [] \<or> last rest = newline"
      unfolding rest_def using take_line_rest less.prems by blast
    note ih = less.hyps [OF shorter lines]
    show ?thesis
    proof (cases "ret = OK")
      case True
      have L: "rules_loop (pre @ X) ret rule
                 = (case rules_line (cstr line) rule of
                      Inl f \<Rightarrow> Inl f
                    | Inr (ret', rule') \<Rightarrow> rules_loop (rest @ X) ret' rule')"
        by (subst rules_loop.simps) (simp add: t True)
      have R: "rules_loop pre ret rule
                 = (case rules_line (cstr line) rule of
                      Inl f \<Rightarrow> Inl f
                    | Inr (ret', rule') \<Rightarrow> rules_loop rest ret' rule')"
        by (subst rules_loop.simps) (simp add: t0 True)
      show ?thesis
        unfolding L R by (simp add: ih split: sum.splits prod.splits)
    next
      case False
      then show ?thesis by (simp add: rules_loop_stopped)
    qed
  qed
qed

lemma rules_loop_one_line:
  assumes "newline \<notin> set body" and "length body < line_len - 1"
    and "rules_line (cstr (body @ [newline])) rule = Inr (OK, rule2)"
  shows "rules_loop (body @ [newline]) OK rule = Inr (OK, rule2)"
proof -
  have f: "fgets line_len (body @ [newline]) = Some (body @ [newline], [])"
    using fgets_whole [OF assms(1,2), of "[]"] by simp
  have e: "rules_loop [] OK rule2 = Inr (OK, rule2)"
    by (subst rules_loop.simps) (simp add: fgets_def)
  show ?thesis
    by (subst rules_loop.simps) (simp add: f assms(3) e)
qed

lemma read_file_OK:
  assumes "readPublisherRulesFromFile (Inr content) rule = Inr (OK, rule')"
  shows "rules_loop content OK
           (rule\<lparr>ignore_other_topics := False, rule_module_name := None, topics := None\<rparr>)
         = Inr (OK, rule')"
  using assms
  by (auto simp: readPublisherRulesFromFile_def EINVAL_def
           split: sum.splits prod.splits if_splits)

lemma last_line_result:
  assumes "pre = [] \<or> last pre = newline"
    and "newline \<notin> set body" and "length body < line_len - 1"
    and "\<And>r. rules_line (cstr (body @ [newline])) r = Inr (OK, upd r)"
    and "readPublisherRulesFromFile (Inr (pre @ body @ [newline])) rule = Inr (OK, rule')"
  shows "\<exists>rule1. rule' = upd rule1"
proof -
  let ?r0 = "rule\<lparr>ignore_other_topics := False, rule_module_name := None, topics := None\<rparr>"
  have "rules_loop (pre @ body @ [newline]) OK ?r0 = Inr (OK, rule')"
    by (rule read_file_OK [OF assms(5)])
  then have c: "(case rules_loop pre OK ?r0 of
                   Inl f \<Rightarrow> Inl f
                 | Inr (ret1, rule1) \<Rightarrow> rules_loop (body @ [newline]) ret1 rule1)
                = Inr (OK, rule')"
    by (simp only: rules_loop_append [OF assms(1)])
  then obtain ret1 rule1 where p: "rules_loop pre OK ?r0 = Inr (ret1, rule1)"
    and l: "rules_loop (body @ [newline]) ret1 rule1 = Inr (OK, rule')"
    by (auto split: sum.splits prod.splits)
  have "ret1 = OK"
  proof (rule ccontr)
    assume "ret1 \<noteq> OK"
    then show False using l by (simp add: rules_loop_stopped)
  qed
  with l rules_loop_one_line [OF assms(2,3) assms(4) [of rule1]]
  show ?thesis by auto
qed

lemma file_module_name:
  assumes "pre = [] \<or> last pre = newline"
    and "newline \<notin> set r" and "NUL \<notin> set r"
    and "length (module_str @ r) < line_len - 1"
    and "readPublisherRulesFromFile (Inr (pre @ (module_str @ r) @ [newline])) rule
           = Inr (OK, rule')"
  shows "rule_module_name rule' = Some (strTrim r)"
proof -
  have nk: "newline \<notin> set module_str" "NUL \<notin> set module_str"
    by (simp_all add: module_str_def newline_def NUL_def)
  have nn: "newline \<noteq> NUL" by (simp add: newline_def NUL_def)
  have c: "cstr ((module_str @ r) @ [newline]) = module_str @ r @ [newline]"
    using cstr_no_NUL [of "module_str @ r @ [newline]" "[]"] nk assms(3) nn
    by (simp add: cstr_def)
  have s: "strTrim (r @ [newline]) = strTrim r @ [newline]"
    using strTrim_stops [OF not_blank(2), of r "[]"] by simp
  have l: "rules_line (cstr ((module_str @ r) @ [newline])) q
             = Inr (OK, q\<lparr>rule_module_name := Some (strTrim r)\<rparr>)" for q
    unfolding c by (simp add: rules_line_module s read_module_name_def nth_append)
  have b: "newline \<notin> set (module_str @ r)" using nk assms(2) by simp
  from last_line_result [OF assms(1) b assms(4) l assms(5)]
  show ?thesis by auto
qed

lemma file_topics:
  assumes "pre = [] \<or> last pre = newline"
    and "\<forall>t \<in> set (t1 # ts). topic_text t" and "strTrim t1 \<noteq> []"
    and "\<forall>c \<in> set ws. blank c"
    and "length (restrict_topics_str @ ws @ joined (t1 # ts)) < line_len"
    and "readPublisherRulesFromFile
           (Inr (pre @ restrict_topics_str @ ws @ joined (t1 # ts))) rule = Inr (OK, rule')"
  shows "topics rule' = Some (map strTrim (t1 # ts))"
proof -
  obtain body where j: "joined (t1 # ts) = body @ [newline]"
      and nb: "newline \<notin> set body" "NUL \<notin> set body"
    using joined_body [OF _ assms(2)] by auto
  let ?b = "restrict_topics_str @ ws @ body"
  have nk: "newline \<notin> set restrict_topics_str" "NUL \<notin> set restrict_topics_str"
    by (simp_all add: restrict_topics_str_def newline_def NUL_def)
  have nw: "newline \<notin> set ws" "NUL \<notin> set ws"
    using blanks_without [OF assms(4)] not_blank(1,2) by blast+
  have nn: "newline \<noteq> NUL" by (simp add: newline_def NUL_def)
  have b1: "newline \<notin> set ?b" using nk nw nb by simp
  have b2: "length ?b < line_len - 1" using assms(5) j by simp
  have c: "cstr (?b @ [newline]) = restrict_topics_str @ ws @ joined (t1 # ts)"
    using cstr_no_NUL [of "?b @ [newline]" "[]"] nk nw nb nn j by (simp add: cstr_def)
  have l: "rules_line (cstr (?b @ [newline])) q
             = Inr (OK, q\<lparr>topics := Some (map strTrim (t1 # ts))\<rparr>)" for q
    unfolding c
    by (simp only: rules_line_restrict read_topics_tokens [OF assms(2,3,4)] sum.case)
  have f: "pre @ restrict_topics_str @ ws @ joined (t1 # ts) = pre @ ?b @ [newline]"
    using j by simp
  from assms(6) have g: "readPublisherRulesFromFile (Inr (pre @ ?b @ [newline])) rule
                           = Inr (OK, rule')"
    by (simp only: f)
  from last_line_result [OF assms(1) b1 b2 l g]
  show ?thesis by auto
qed

lemma strTrim_value:
  assumes "\<forall>c \<in> set ws. blank c" and "v \<noteq> []" and "\<not> blank (hd v)"
  shows "strTrim (ws @ v @ ws') = v @ ws'"
proof -
  obtain c v' where v: "v = c # v'" using assms(2) by (cases v) auto
  with assms(3) have "strTrim ((c # v') @ ws') = (c # v') @ ws'"
    by (simp add: blank_def)
  with v show ?thesis by (simp add: strTrim_blanks [OF assms(1)])
qed


lemma file_key_blanks:
  assumes bl: "\<forall>c \<in> set ws. blank c" and pre: "pre = [] \<or> last pre = newline"
    and k: "key \<in> {module_str, restrict_topics_str, ignore_others}"
    and nv: "newline \<notin> set v" and len: "length (key @ ws @ v) < line_len - 1"
  shows "readPublisherRulesFromFile (Inr (pre @ (key @ ws @ v @ [newline]) @ post)) rule
           = readPublisherRulesFromFile (Inr (pre @ (key @ v @ [newline]) @ post)) rule"
proof -
  have nk: "newline \<notin> set key"
    using k by (auto simp: module_str_def restrict_topics_str_def ignore_others_def newline_def)
  have nw: "newline \<notin> set ws"
    by (rule blanks_without [OF bl not_blank(2)])
  have f1: "fgets line_len ((key @ ws @ v @ [newline]) @ post)
              = Some (key @ ws @ v @ [newline], post)"
    using fgets_whole [of "key @ ws @ v" post] nk nw nv len by simp
  have f2: "fgets line_len ((key @ v @ [newline]) @ post) = Some (key @ v @ [newline], post)"
    using fgets_whole [of "key @ v" post] nk nv len by simp
  have eq: "rules_line (cstr (key @ ws @ v @ [newline])) r
              = rules_line (cstr (key @ v @ [newline])) r" for r
    using rules_line_key_blanks [OF bl k]
    by (simp add: cstr_no_NUL keys_no_NUL [OF k] blanks_without [OF bl not_blank(1)])
  show ?thesis
    unfolding readPublisherRulesFromFile_def
    by (simp only: sum.case rules_loop_same_line [OF eq f1 f2 pre])
qed

lemma file_comma_blanks:
  assumes bl: "\<forall>c \<in> set ws. blank c" and pre: "pre = [] \<or> last pre = newline"
    and nv: "newline \<notin> set v" and nx: "newline \<notin> set x" "NUL \<notin> set x"
    and tx: "strTrim x \<noteq> []" and lx: "last x \<noteq> CHR '',''"
    and v: "v \<noteq> []" "hd v \<noteq> CHR '',''"
    and len: "length (restrict_topics_str @ x @ CHR '','' # ws @ v) < line_len - 1"
  shows "readPublisherRulesFromFile
             (Inr (pre @ (restrict_topics_str @ x @ CHR '','' # ws @ v @ [newline]) @ post)) rule
           = readPublisherRulesFromFile
               (Inr (pre @ (restrict_topics_str @ x @ CHR '','' # v @ [newline]) @ post)) rule"
proof -
  let ?k = restrict_topics_str
  have nk: "newline \<notin> set ?k" "NUL \<notin> set ?k"
    by (simp_all add: restrict_topics_str_def newline_def NUL_def)
  have nw: "newline \<notin> set ws"
    by (rule blanks_without [OF bl not_blank(2)])
  have nc: "CHR '','' \<noteq> newline" "CHR '','' \<noteq> NUL" by (simp_all add: newline_def NUL_def)
  have f1: "fgets line_len ((?k @ x @ CHR '','' # ws @ v @ [newline]) @ post)
              = Some (?k @ x @ CHR '','' # ws @ v @ [newline], post)"
    using fgets_whole [of "?k @ x @ CHR '','' # ws @ v" post] nk nw nc nv nx len by simp
  have f2: "fgets line_len ((?k @ x @ CHR '','' # v @ [newline]) @ post)
              = Some (?k @ x @ CHR '','' # v @ [newline], post)"
    using fgets_whole [of "?k @ x @ CHR '','' # v" post] nk nc nv nx len by simp
  from tx have xne: "x \<noteq> []" by auto
  then have "last x \<in> set x" by simp
  with nx have "last x \<noteq> newline" by metis
  with lx have sx: "\<not> separator (last x)"
    by (simp add: separator_def)
  have hv: "hd v \<noteq> newline" using nv v by (cases v) auto
  obtain c v' where vc: "v = c # v'" using v by (cases v) auto
  have sy: "cstr (v @ [newline]) = [] \<or> \<not> separator (hd (cstr (v @ [newline])))"
    using v hv vc by (auto simp: cstr_def separator_def)
  have eq: "rules_line (cstr (?k @ x @ CHR '','' # ws @ v @ [newline])) r
              = rules_line (cstr (?k @ x @ CHR '','' # v @ [newline])) r" for r
  proof -
    have c1: "cstr (?k @ x @ CHR '','' # ws @ v @ [newline])
                = ?k @ x @ CHR '','' # ws @ cstr (v @ [newline])"
      using cstr_no_NUL [of "?k @ x @ CHR '','' # ws" "v @ [newline]"] nk nc nx
        blanks_without [OF bl not_blank(1)] by simp
    have c2: "cstr (?k @ x @ CHR '','' # v @ [newline])
                = ?k @ x @ CHR '','' # cstr (v @ [newline])"
      using cstr_no_NUL [of "?k @ x @ [CHR '','']" "v @ [newline]"] nk nc nx by simp
    show ?thesis
      unfolding c1 c2 by (rule rules_line_comma_blanks [OF bl tx sx sy])
  qed
  show ?thesis
    unfolding readPublisherRulesFromFile_def
    by (simp only: sum.case rules_loop_same_line [OF eq f1 f2 pre])
qed

lemma module_last_file:
  "readPublisherRulesFromFile
     (Inr ((''restrict_topics:att'' @ [newline]) @ (module_str @ '' estimator '' @ [tab])
             @ [newline]))
     \<lparr>topics = None, rule_module_name = None, ignore_other_topics = False\<rparr>
   = Inr (OK, \<lparr>topics = Some [''att''], rule_module_name = Some (''estimator '' @ [tab]),
               ignore_other_topics = False\<rparr>)"
  by code_simp

lemma topics_last_file:
  "readPublisherRulesFromFile
     (Inr ((''module:m'' @ [newline]) @ restrict_topics_str @ [CHR '' '', tab]
             @ joined [''att '', '' pos'' @ [tab]]))
     \<lparr>topics = None, rule_module_name = None, ignore_other_topics = False\<rparr>
   = Inr (OK, \<lparr>topics = Some [''att '', ''pos'' @ [tab]], rule_module_name = Some ''m'',
               ignore_other_topics = False\<rparr>)"
  by code_simp

text \<open>
  C9, as the claim states it, does not hold: \<open>strTrim\<close> only skips spaces and tabs
  in front of a value. A space after the module name or after a topic name stays part of
  the parsed name, so the file with such spaces does not parse to the rule of the file
  with the bare values.
\<close>

theorem trailing_whitespace_counterexample:
  "readPublisherRulesFromFile
     (Inr (''module: estimator '' @ [newline] @ ''restrict_topics: att ,pos'' @ [newline]))
     \<lparr>topics = None, rule_module_name = None, ignore_other_topics = False\<rparr>
     = Inr (OK, \<lparr>topics = Some [''att '', ''pos''], rule_module_name = Some ''estimator '',
                 ignore_other_topics = False\<rparr>)
   \<and> readPublisherRulesFromFile
       (Inr (''module: estimator'' @ [newline] @ ''restrict_topics: att,pos'' @ [newline]))
       \<lparr>topics = None, rule_module_name = None, ignore_other_topics = False\<rparr>
     = Inr (OK, \<lparr>topics = Some [''att'', ''pos''], rule_module_name = Some ''estimator'',
                 ignore_other_topics = False\<rparr>)"
  by code_simp

text \<open>
  C9, amended. In a publisher rules file whose lines are shorter than the line buffer,
  spaces and tabs in front of a value are removed, and spaces and tabs that follow a
  value are kept as part of the value. In five parts, for a run \<open>ws\<close> of spaces and
  tabs and a line that starts the file or follows a newline:
  \<^item> a line whose value is preceded by \<open>ws\<close> parses to the same rule as the line with
    the bare value, for the value after each of the three keys, whatever the rest of the
    file is;
  \<^item> the same holds for a topic name that follows a comma, when the text before the
    comma holds a character other than a space or a tab and does not end with a comma
    (it may end with spaces, as in \<open>att , pos\<close>), and the topic after the comma is not
    empty and does not start with a comma;
  \<^item> when the file is read with the result \<open>OK\<close> and its last line is a \<open>module:\<close>
    line, the module name is the text of that line after the key without its leading
    spaces and tabs, up to the newline: whatever follows the name on the line, spaces
    and tabs included, is part of the name;
  \<^item> when the file is read with the result \<open>OK\<close> and its last line is a
    \<open>restrict_topics:\<close> line of topics separated by commas (each not empty and free of
    commas, newlines and NUL characters, the first one not made of spaces and tabs
    only), the topics list holds, in order, each text between the commas without its
    leading spaces and tabs and with everything after them kept;
  \<^item> \<open>strTrim\<close> of a value that does not start with a space or a tab, with \<open>ws\<close> in
    front of it and any text behind it, is the value with that text behind it.
\<close>

theorem rules_file_whitespace:
  assumes "set ws \<subseteq> {CHR '' '', tab}"
    and "pre = [] \<or> last pre = newline"
  shows "(key \<in> {module_str, restrict_topics_str, ignore_others} \<and> newline \<notin> set v
          \<and> length (key @ ws @ v) < line_len - 1 \<longrightarrow>
            readPublisherRulesFromFile (Inr (pre @ (key @ ws @ v @ [newline]) @ post)) rule
              = readPublisherRulesFromFile (Inr (pre @ (key @ v @ [newline]) @ post)) rule)
       \<and> (newline \<notin> set v \<and> newline \<notin> set x \<and> NUL \<notin> set x \<and> strTrim x \<noteq> []
          \<and> last x \<noteq> CHR '','' \<and> v \<noteq> [] \<and> hd v \<noteq> CHR '',''
          \<and> length (restrict_topics_str @ x @ CHR '','' # ws @ v) < line_len - 1 \<longrightarrow>
            readPublisherRulesFromFile
                (Inr (pre @ (restrict_topics_str @ x @ CHR '','' # ws @ v @ [newline]) @ post)) rule
              = readPublisherRulesFromFile
                  (Inr (pre @ (restrict_topics_str @ x @ CHR '','' # v @ [newline]) @ post)) rule)
       \<and> (newline \<notin> set r \<and> NUL \<notin> set r \<and> length (module_str @ r) < line_len - 1
          \<and> readPublisherRulesFromFile (Inr (pre @ (module_str @ r) @ [newline])) rule
              = Inr (OK, rule') \<longrightarrow>
            rule_module_name rule' = Some (strTrim r))
       \<and> (list_all topic_text (t1 # ts) \<and> strTrim t1 \<noteq> []
          \<and> length (restrict_topics_str @ ws @ joined (t1 # ts)) < line_len
          \<and> readPublisherRulesFromFile
                (Inr (pre @ restrict_topics_str @ ws @ joined (t1 # ts))) rule
              = Inr (OK, rule'') \<longrightarrow>
            topics rule'' = Some (map strTrim (t1 # ts)))
       \<and> (u \<noteq> [] \<and> hd u \<notin> {CHR '' '', tab} \<longrightarrow> strTrim (ws @ u @ ws') = u @ ws')"
proof -
  have bl: "\<forall>c \<in> set ws. blank c"
    using assms(1) by (auto simp: blank_def)
  have A: "readPublisherRulesFromFile (Inr (pre @ (key @ ws @ v @ [newline]) @ post)) rule
              = readPublisherRulesFromFile (Inr (pre @ (key @ v @ [newline]) @ post)) rule"
    if "key \<in> {module_str, restrict_topics_str, ignore_others} \<and> newline \<notin> set v
          \<and> length (key @ ws @ v) < line_len - 1"
    using that file_key_blanks [OF bl assms(2)] by blast
  have B: "readPublisherRulesFromFile
                (Inr (pre @ (restrict_topics_str @ x @ CHR '','' # ws @ v @ [newline]) @ post)) rule
              = readPublisherRulesFromFile
                  (Inr (pre @ (restrict_topics_str @ x @ CHR '','' # v @ [newline]) @ post)) rule"
    if "newline \<notin> set v \<and> newline \<notin> set x \<and> NUL \<notin> set x \<and> strTrim x \<noteq> []
          \<and> last x \<noteq> CHR '','' \<and> v \<noteq> [] \<and> hd v \<noteq> CHR '',''
          \<and> length (restrict_topics_str @ x @ CHR '','' # ws @ v) < line_len - 1"
    using that file_comma_blanks [OF bl assms(2)] by blast
  have M: "rule_module_name rule' = Some (strTrim r)"
    if "newline \<notin> set r \<and> NUL \<notin> set r \<and> length (module_str @ r) < line_len - 1
          \<and> readPublisherRulesFromFile (Inr (pre @ (module_str @ r) @ [newline])) rule
              = Inr (OK, rule')"
    using that file_module_name [OF assms(2)] by blast
  have T: "topics rule'' = Some (map strTrim (t1 # ts))"
    if "list_all topic_text (t1 # ts) \<and> strTrim t1 \<noteq> []
          \<and> length (restrict_topics_str @ ws @ joined (t1 # ts)) < line_len
          \<and> readPublisherRulesFromFile
                (Inr (pre @ restrict_topics_str @ ws @ joined (t1 # ts))) rule
              = Inr (OK, rule'')"
  proof -
    from that have "list_all topic_text (t1 # ts)" by (rule conjunct1)
    then have "\<forall>t \<in> set (t1 # ts). topic_text t"
      unfolding list_all_iff .
    with that file_topics [OF assms(2) _ _ bl] show ?thesis by blast
  qed
  have S: "strTrim (ws @ u @ ws') = u @ ws'" if "u \<noteq> [] \<and> hd u \<notin> {CHR '' '', tab}"
    using that strTrim_value [OF bl, of u ws'] by (simp add: blank_def)
  from A B M T S show ?thesis by blast
qed

theorem rules_file_whitespace_witness:
  "set [CHR '' '', tab] \<subseteq> {CHR '' '', tab}
   \<and> readPublisherRulesFromFile
         (Inr ((module_str @ [CHR '' '', tab] @ ''estimator'' @ [newline])
               @ ''restrict_topics:att'' @ [newline]))
         \<lparr>topics = None, rule_module_name = None, ignore_other_topics = False\<rparr>
       = readPublisherRulesFromFile
           (Inr ((module_str @ ''estimator'' @ [newline]) @ ''restrict_topics:att'' @ [newline]))
           \<lparr>topics = None, rule_module_name = None, ignore_other_topics = False\<rparr>
   \<and> readPublisherRulesFromFile
         (Inr ((module_str @ ''estimator'' @ [newline])
               @ (restrict_topics_str @ ''att '' @ CHR '','' # [CHR '' '', tab] @ ''pos''
                    @ [newline]) @ []))
         \<lparr>topics = None, rule_module_name = None, ignore_other_topics = False\<rparr>
       = readPublisherRulesFromFile
           (Inr ((module_str @ ''estimator'' @ [newline])
                 @ (restrict_topics_str @ ''att '' @ CHR '','' # ''pos'' @ [newline]) @ []))
           \<lparr>topics = None, rule_module_name = None, ignore_other_topics = False\<rparr>
   \<and> readPublisherRulesFromFile
         (Inr ((''restrict_topics:att'' @ [newline]) @ (module_str @ '' estimator '' @ [tab])
                 @ [newline]))
         \<lparr>topics = None, rule_module_name = None, ignore_other_topics = False\<rparr>
       = Inr (OK, \<lparr>topics = Some [''att''], rule_module_name = Some (''estimator '' @ [tab]),
                   ignore_other_topics = False\<rparr>)
   \<and> rule_module_name
         \<lparr>topics = Some [''att''], rule_module_name = Some (''estimator '' @ [tab]),
          ignore_other_topics = False\<rparr>
       = Some (strTrim ('' estimator '' @ [tab]))
   \<and> readPublisherRulesFromFile
         (Inr ((''module:m'' @ [newline]) @ restrict_topics_str @ [CHR '' '', tab]
                 @ joined [''att '', '' pos'' @ [tab]]))
         \<lparr>topics = None, rule_module_name = None, ignore_other_topics = False\<rparr>
       = Inr (OK, \<lparr>topics = Some [''att '', ''pos'' @ [tab]], rule_module_name = Some ''m'',
                   ignore_other_topics = False\<rparr>)
   \<and> topics
         \<lparr>topics = Some [''att '', ''pos'' @ [tab]], rule_module_name = Some ''m'',
          ignore_other_topics = False\<rparr>
       = Some (map strTrim [''att '', '' pos'' @ [tab]])
   \<and> strTrim ([CHR '' '', tab] @ ''estimator'' @ [CHR '' '', tab])
       = ''estimator'' @ [CHR '' '', tab]"
proof -
  let ?r = "\<lparr>topics = None, rule_module_name = None, ignore_other_topics = False\<rparr>"
  let ?ws = "[CHR '' '', tab]"
  have w: "set ?ws \<subseteq> {CHR '' '', tab}" by simp
  have e: "([] :: string) = [] \<or> last ([] :: string) = newline" by simp
  have p: "module_str @ ''estimator'' @ [newline] = []
             \<or> last (module_str @ ''estimator'' @ [newline]) = newline"
    by simp
  have p3: "''restrict_topics:att'' @ [newline] = []
             \<or> last (''restrict_topics:att'' @ [newline]) = newline"
    by simp
  have p4: "''module:m'' @ [newline] = [] \<or> last (''module:m'' @ [newline]) = newline"
    by simp
  have a: "module_str \<in> {module_str, restrict_topics_str, ignore_others}
            \<and> newline \<notin> set ''estimator''
            \<and> length (module_str @ ?ws @ ''estimator'') < line_len - 1"
    by (simp add: module_str_def line_len_def newline_def)
  have b: "newline \<notin> set ''pos'' \<and> newline \<notin> set ''att '' \<and> NUL \<notin> set ''att ''
          \<and> strTrim ''att '' \<noteq> [] \<and> last ''att '' \<noteq> CHR '','' \<and> ''pos'' \<noteq> []
          \<and> hd ''pos'' \<noteq> CHR '',''
          \<and> length (restrict_topics_str @ ''att '' @ CHR '','' # ?ws @ ''pos'') < line_len - 1"
    by (simp add: restrict_topics_str_def line_len_def newline_def NUL_def tab_def)
  have m: "newline \<notin> set ('' estimator '' @ [tab]) \<and> NUL \<notin> set ('' estimator '' @ [tab])
          \<and> length (module_str @ '' estimator '' @ [tab]) < line_len - 1
          \<and> readPublisherRulesFromFile
               (Inr ((''restrict_topics:att'' @ [newline])
                      @ (module_str @ '' estimator '' @ [tab]) @ [newline])) ?r
              = Inr (OK, \<lparr>topics = Some [''att''],
                          rule_module_name = Some (''estimator '' @ [tab]),
                          ignore_other_topics = False\<rparr>)"
    using module_last_file
    by (simp add: module_str_def line_len_def newline_def NUL_def tab_def)
  have t: "list_all topic_text (''att '' # ['' pos'' @ [tab]]) \<and> strTrim ''att '' \<noteq> []
          \<and> length (restrict_topics_str @ ?ws @ joined (''att '' # ['' pos'' @ [tab]]))
              < line_len
          \<and> readPublisherRulesFromFile
               (Inr ((''module:m'' @ [newline]) @ restrict_topics_str @ ?ws
                      @ joined (''att '' # ['' pos'' @ [tab]]))) ?r
              = Inr (OK, \<lparr>topics = Some [''att '', ''pos'' @ [tab]],
                          rule_module_name = Some ''m'', ignore_other_topics = False\<rparr>)"
    using topics_last_file
    by (simp add: topic_text_def restrict_topics_str_def line_len_def newline_def NUL_def
        tab_def)
  have u: "''estimator'' \<noteq> [] \<and> hd ''estimator'' \<notin> {CHR '' '', tab}"
    by (simp add: tab_def)
  note t1 = rules_file_whitespace [where ws = ?ws and pre = "[]"
      and v = "''estimator''" and key = module_str
      and post = "''restrict_topics:att'' @ [newline]" and rule = ?r,
      OF w e, THEN conjunct1, rule_format, OF a]
  note t2 = rules_file_whitespace [where ws = ?ws
      and pre = "module_str @ ''estimator'' @ [newline]"
      and v = "''pos''" and post = "[]" and rule = ?r and x = "''att ''",
      OF w p, THEN conjunct2, THEN conjunct1, rule_format, OF b]
  note t3 = rules_file_whitespace [where ws = ?ws
      and pre = "''restrict_topics:att'' @ [newline]" and r = "'' estimator '' @ [tab]"
      and rule = ?r,
      OF w p3, THEN conjunct2, THEN conjunct2, THEN conjunct1, rule_format, OF m]
  note t4 = rules_file_whitespace [where ws = ?ws
      and pre = "''module:m'' @ [newline]" and ?t1.0 = "''att ''"
      and ts = "['' pos'' @ [tab]]" and rule = ?r,
      OF w p4, THEN conjunct2, THEN conjunct2, THEN conjunct2, THEN conjunct1, rule_format,
      OF t]
  note t5 = rules_file_whitespace [where ws = ?ws and pre = "[]" and u = "''estimator''"
      and ws' = ?ws,
      OF w e, THEN conjunct2, THEN conjunct2, THEN conjunct2, THEN conjunct2, rule_format,
      OF u]
  from t1 have c1: "readPublisherRulesFromFile
         (Inr ((module_str @ ?ws @ ''estimator'' @ [newline])
               @ ''restrict_topics:att'' @ [newline])) ?r
       = readPublisherRulesFromFile
           (Inr ((module_str @ ''estimator'' @ [newline]) @ ''restrict_topics:att'' @ [newline]))
           ?r"
    by simp
  from t4 have c4: "topics
         \<lparr>topics = Some [''att '', ''pos'' @ [tab]], rule_module_name = Some ''m'',
          ignore_other_topics = False\<rparr>
       = Some (map strTrim [''att '', '' pos'' @ [tab]])" .
  from w c1 t2 module_last_file t3 topics_last_file c4 t5 show ?thesis by blast
qed

subsection \<open>Check\<close>

text \<open>
  C10. \<open>orb_check\<close> stores \<open>false\<close> in the caller's flag before it asks the driver,
  so the flag's earlier content never matters; and when the check fails (a negative
  result), the flag is \<open>false\<close> afterwards. A failed \<open>ioctl\<close> is taken not to write
  through its argument.
\<close>

theorem orb_check_failed_not_updated:
  assumes "failed_ioctl_keeps_arg ops"
    and "fst (fst (orb_check ops handle updated w)) < 0"
  shows "snd (fst (orb_check ops handle updated w)) = False
       \<and> orb_check ops handle updated w = orb_check ops handle False w"
proof -
  obtain ret arg w1
    where r: "sys_ioctl ops handle ORBIOCUPDATED (ArgBoolPtr False) w = ((ret, arg), w1)"
    by (metis surj_pair)
  with assms(2) have "ret < 0" by (simp add: orb_check_def)
  with assms(1) r have "arg = ArgBoolPtr False"
    unfolding failed_ioctl_keeps_arg_def by (metis fst_conv snd_conv)
  with r show ?thesis by (simp add: orb_check_def)
qed

theorem orb_check_failed_not_updated_witness:
  "failed_ioctl_keeps_arg spec_ops
   \<and> fst (fst (orb_check spec_ops 9 True (boot ''logger''))) < 0
   \<and> snd (fst (orb_check spec_ops 9 True (boot ''logger''))) = False"
proof -
  have f: "fst (fst (orb_check spec_ops 9 True (boot ''logger''))) < 0"
    by (simp add: orb_check_def spec_ops_def spec_ioctl_def boot_def)
  show ?thesis
    using orb_check_failed_not_updated [OF spec_ops_keeps_arg f] spec_ops_keeps_arg f
    by blast
qed

end
